theory Spec2Isabelle
  imports Complex_Main
begin

section \<open>Python values, exceptions and the observable world\<close>

text \<open>
  The program under study is \<^verbatim>\<open>scraper.py\<close>: \<^verbatim>\<open>get_html_content\<close> (a retrying HTTP fetch),
  \<^verbatim>\<open>parse_html_to_json\<close>, \<^verbatim>\<open>extract_user_info\<close> and \<^verbatim>\<open>main\<close>, which chains the three.
  Byte strings and text are lists of characters. A decoded JSON document is a Python value:
  \<^verbatim>\<open>None\<close>, a bool, an int, a float, a str, a list or a dict. A dict is kept as an association
  list with distinct keys, read with \<open>map_of\<close>.
\<close>

type_synonym bytes = string

datatype pyfloat = Finite rat | PosInf | NegInf | NaN

datatype json =
    JNull
  | JBool bool
  | JInt int
  | JFloat pyfloat
  | JStr string
  | JList "json list"
  | JDict "(string \<times> json) list"

text \<open>
  Exceptions. \<open>HTTPError\<close>, \<open>ConnectionError\<close> (which covers DNS failures) and \<open>Timeout\<close> are
  subclasses of \<^verbatim>\<open>requests.RequestException\<close>; \<open>JSONDecodeError\<close> is a subclass of
  \<^verbatim>\<open>ValueError\<close>. A \<open>ValueError\<close> carries its message and its \<^verbatim>\<open>__context__\<close>: the exception
  that was being handled when it was raised, which Python attaches implicitly; so do the
  two errors \<^verbatim>\<open>time.sleep\<close> can raise besides. A \<open>RateLimitException\<close> carries its attribute
  \<^verbatim>\<open>period_remaining\<close>.
\<close>

datatype exn =
    HTTPError nat
  | ConnectionError
  | Timeout
  | RequestException
  | RateLimitException rat
  | JSONDecodeError
  | AttributeError
  | TypeError
  | KeyError
  | OtherException
  | OverflowError "exn option"
  | OSError "exn option"
  | ValueError string "exn option"

fun is_HTTPError :: "exn \<Rightarrow> bool" where
  "is_HTTPError (HTTPError _) = True"
| "is_HTTPError _ = False"

fun is_RequestException :: "exn \<Rightarrow> bool" where
  "is_RequestException (HTTPError _) = True"
| "is_RequestException ConnectionError = True"
| "is_RequestException Timeout = True"
| "is_RequestException RequestException = True"
| "is_RequestException _ = False"

fun is_RateLimitException :: "exn \<Rightarrow> bool" where
  "is_RateLimitException (RateLimitException _) = True"
| "is_RateLimitException _ = False"

fun is_ValueError :: "exn \<Rightarrow> bool" where
  "is_ValueError (ValueError _ _) = True"
| "is_ValueError JSONDecodeError = True"
| "is_ValueError _ = False"

text \<open>The dict built for every item at lines 128-141 of the source.\<close>

record social_media =
  instagram :: json
  twitter :: json
  youtube :: json
  discord :: json
  tiktok :: json
  facebook :: json

record extracted_user_info =
  user_id :: json
  username :: json
  bio :: json
  social :: social_media
  profilepic :: json

text \<open>One constructor per logging call of the source, with the values it formats.\<close>

datatype log_event =
    HttpErrorEncountered exn
  | AttemptFailedRetrying nat rat exn
  | FailedAfterAttempts nat exn
  | RateLimitExceeded exn
  | UnexpectedError exn
  | JsonParsingError
  | UnexpectedParseError exn
  | ChannelInfo json
  | UserInfo extracted_user_info

text \<open>
  The surroundings of the program. What it does to them: the HTTP requests it has issued,
  the pauses it has taken with \<^verbatim>\<open>time.sleep\<close>, the lines it has logged (oldest first), and
  the readings of the clock at which the rate limiter let a call through. What they are:
  the reading of \<^verbatim>\<open>time.monotonic\<close>, in seconds; the time the \<open>n\<close>-th request takes; the
  longest pause the platform's \<^verbatim>\<open>time.sleep\<close> accepts. And the state of the one rate
  limiter of the module, created when the module is imported: the clock reading of its
  last reset and its count of calls since then.
\<close>

record world =
  requests_made :: nat
  slept :: "rat list"
  log :: "log_event list"
  admitted_at :: "rat list"
  clock :: rat
  request_seconds :: "nat \<Rightarrow> rat"
  sleep_limit :: rat
  last_reset :: rat
  num_calls :: nat

definition logging :: "log_event \<Rightarrow> world \<Rightarrow> world" where
  "logging ev w = w\<lparr>log := log w @ [ev]\<rparr>"

text \<open>
  \<^verbatim>\<open>time.sleep(secs)\<close> on a finite float. It raises \<^verbatim>\<open>ValueError\<close> for a negative length and
  \<^verbatim>\<open>OverflowError\<close> for a length that does not fit a signed 64-bit count of nanoseconds
  (about 9.2e9 seconds); below that bound the system call can still refuse a length the
  platform cannot wait for, which gives \<^verbatim>\<open>OSError\<close>. Otherwise it pauses, and the clock
  moves on by the length (in reality by at least the length). It is only called from
  inside an exception handler, so the error it raises has that exception as context.
\<close>

definition time_sleep :: "rat \<Rightarrow> exn \<Rightarrow> world \<Rightarrow> (exn + unit) \<times> world" where
  "time_sleep secs handled w =
     (if secs < 0 then (Inl (ValueError ''sleep length must be non-negative'' (Some handled)), w)
      else if 9223372036854775807 < secs * 1000000000 then (Inl (OverflowError (Some handled)), w)
      else if sleep_limit w < secs then (Inl (OSError (Some handled)), w)
      else (Inr (), w\<lparr>slept := slept w @ [secs], clock := clock w + secs\<rparr>))"

section \<open>get_html_content\<close>

definition RETRY_TIMES :: nat where
  "RETRY_TIMES = 3"

text \<open>
  The network is a script: the \<open>n\<close>-th request ever issued either comes back with a status
  code and a body, or raises. \<^verbatim>\<open>response.raise_for_status()\<close> raises \<open>HTTPError\<close> exactly for
  the status codes 400 to 599. Issuing a request counts it and takes its time.
\<close>

definition issue_request :: "world \<Rightarrow> world" where
  "issue_request w =
     w\<lparr>requests_made := Suc (requests_made w),
       clock := clock w + request_seconds w (requests_made w)\<rparr>"

datatype attempt_outcome = Response nat bytes | Raises exn

definition raise_for_status :: "nat \<Rightarrow> exn + unit" where
  "raise_for_status status_code =
     (if 400 \<le> status_code \<and> status_code < 600 then Inl (HTTPError status_code) else Inr ())"

text \<open>The body of the \<^verbatim>\<open>try\<close> at lines 36-46: the request, the status check, the content.\<close>

definition request_attempt :: "attempt_outcome \<Rightarrow> exn + bytes" where
  "request_attempt out =
     (case out of
        Raises e \<Rightarrow> Inl e
      | Response status_code content \<Rightarrow>
          (case raise_for_status status_code of
             Inl e \<Rightarrow> Inl e
           | Inr _ \<Rightarrow> Inr content))"

text \<open>
  The loop \<^verbatim>\<open>for attempt in range(RETRY_TIMES)\<close> from the iteration \<open>attempt\<close> on. The handlers
  are tried in the order of the source: \<open>HTTPError\<close>, \<open>RequestException\<close>,
  \<open>RateLimitException\<close>, \<open>Exception\<close>. Falling out of the loop returns \<^verbatim>\<open>None\<close>.
\<close>

function attempt_loop ::
  "(nat \<Rightarrow> attempt_outcome) \<Rightarrow> rat \<Rightarrow> nat \<Rightarrow> world \<Rightarrow> (exn + bytes option) \<times> world" where
  "attempt_loop env delay attempt w =
     (if attempt < RETRY_TIMES then
        (case request_attempt (env (requests_made w)) of
           Inr content \<Rightarrow> (Inr (Some content), issue_request w)
         | Inl e \<Rightarrow>
             if is_HTTPError e then
               (Inr None, logging (HttpErrorEncountered e) (issue_request w))
             else if is_RequestException e then
               (if attempt < RETRY_TIMES - 1 then
                  (case time_sleep delay e
                          (logging (AttemptFailedRetrying (attempt + 1) delay e)
                             (issue_request w)) of
                     (Inl err, w') \<Rightarrow> (Inl err, w')
                   | (Inr _, w') \<Rightarrow> attempt_loop env delay (attempt + 1) w')
                else
                  (Inr None, logging (FailedAfterAttempts RETRY_TIMES e)
                                (issue_request w)))
             else if is_RateLimitException e then
               (Inr None, logging (RateLimitExceeded e) (issue_request w))
             else
               (Inr None, logging (UnexpectedError e) (issue_request w)))
      else (Inr None, w))"
  by pat_completeness auto
termination
  by (relation "measure (\<lambda>(env, delay, attempt, w). RETRY_TIMES - attempt)") auto

declare attempt_loop.simps [simp del]

text \<open>
  The function is decorated with \<^verbatim>\<open>@sleep_and_retry\<close> and \<^verbatim>\<open>@limits(calls=CALLS, period=PERIOD)\<close>
  of the package \<^verbatim>\<open>ratelimit\<close>. The wrapper that \<^verbatim>\<open>limits\<close> builds is
  \<^verbatim>\<open>
    with self.lock:
        period_remaining = self.__period_remaining()   # period - (clock() - last_reset)
        if period_remaining <= 0:
            self.num_calls = 0
            self.last_reset = self.clock()
        self.num_calls += 1
        if self.num_calls > self.clamped_calls:
            if self.raise_on_limit:
                raise RateLimitException('too many calls', period_remaining)
            return
    return func(*args, **kargs)
  \<close>
  with \<^verbatim>\<open>clamped_calls = max(1, min(sys.maxsize, floor(calls)))\<close> and the clock
  \<^verbatim>\<open>time.monotonic\<close>, and the wrapper that \<^verbatim>\<open>sleep_and_retry\<close> builds is
  \<^verbatim>\<open>
    while True:
        try:
            return func(*args, **kargs)
        except RateLimitException as exception:
            time.sleep(exception.period_remaining)
  \<close>
\<close>

definition CALLS :: nat where
  "CALLS = 10"

definition PERIOD :: nat where
  "PERIOD = 60"

definition clamped_calls :: nat where
  "clamped_calls = max 1 (min 9223372036854775807 CALLS)"

definition period_remaining :: "world \<Rightarrow> rat" where
  "period_remaining w = of_nat PERIOD - (clock w - last_reset w)"

text \<open>The part of the wrapper of \<^verbatim>\<open>limits\<close> that runs under the lock.\<close>

definition limits_enter :: "world \<Rightarrow> (exn + unit) \<times> world" where
  "limits_enter w =
     (let remaining = period_remaining w;
          w1 = (if remaining \<le> 0 then w\<lparr>num_calls := 0, last_reset := clock w\<rparr> else w);
          w2 = w1\<lparr>num_calls := num_calls w1 + 1\<rparr>
      in if clamped_calls < num_calls w2 then (Inl (RateLimitException remaining), w2)
         else (Inr (), w2))"

text \<open>The wrapper of \<^verbatim>\<open>limits\<close>: a call that is let through is noted with its clock reading.\<close>

definition limits :: "(world \<Rightarrow> (exn + 'a) \<times> world) \<Rightarrow> world \<Rightarrow> (exn + 'a) \<times> world" where
  "limits func w =
     (case limits_enter w of
        (Inl e, w') \<Rightarrow> (Inl e, w')
      | (Inr _, w') \<Rightarrow> func (w'\<lparr>admitted_at := admitted_at w' @ [clock w']\<rparr>))"

text \<open>
  \<^verbatim>\<open>get_html_content\<close> as the module exports it: the loop of \<^verbatim>\<open>sleep_and_retry\<close> around the
  wrapper of \<^verbatim>\<open>limits\<close> around the body above. The loop goes round again only after a
  \<open>RateLimitException\<close>; the body never lets one escape, and after the pause the limiter's
  period has run out, which is why the loop ends. The request parameters (API key, target
  URL, \<^verbatim>\<open>render_js\<close>) are the same at every attempt and are part of what \<open>env\<close> answers to.
\<close>

function get_html_content ::
  "(nat \<Rightarrow> attempt_outcome) \<Rightarrow> rat \<Rightarrow> world \<Rightarrow> (exn + bytes option) \<times> world" where
  "get_html_content env delay w =
     (case limits (attempt_loop env delay 0) w of
        (Inl (RateLimitException remaining), w') \<Rightarrow>
          (case time_sleep remaining (RateLimitException remaining) w' of
             (Inl err, w'') \<Rightarrow> (Inl err, w'')
           | (Inr _, w'') \<Rightarrow> get_html_content env delay w'')
      | (r, w') \<Rightarrow> (r, w'))"
  by pat_completeness auto

termination
proof (relation "measure (\<lambda>(env, delay, w). if fst (limits_enter w) = Inr () then 0 else 1)")
  show "wf (measure (\<lambda>(env, delay, w). if fst (limits_enter w) = Inr () then 0 else (1::nat)))"
    by simp
next
  fix env :: "nat \<Rightarrow> attempt_outcome" and delay :: rat and w w' w'' :: world
    and x :: "exn + bytes option" and e :: exn and remaining :: rat
    and y :: "exn + unit" and u :: unit
  assume call: "(x, w') = limits (attempt_loop env delay 0) w" "x = Inl e"
    "e = RateLimitException remaining"
    and pause: "(y, w'') = time_sleep remaining (RateLimitException remaining) w'" "y = Inr u"
  have body: "fst (attempt_loop env delay a v) \<noteq> Inl (RateLimitException r)" for a v r
  proof (induction env delay a v rule: attempt_loop.induct)
    case (1 env delay attempt w)
    show ?case
      using 1
      by (subst attempt_loop.simps)
         (auto simp: time_sleep_def split: sum.splits prod.splits if_splits)
  qed
  have raised: "limits_enter w = (Inl (RateLimitException remaining), w')"
  proof (cases "limits_enter w")
    case (Pair r v)
    show ?thesis
    proof (cases r)
      case (Inl e')
      with Pair call show ?thesis by (simp add: limits_def)
    next
      case (Inr z)
      with Pair call have "fst (attempt_loop env delay 0 (v\<lparr>admitted_at := admitted_at v @ [clock v]\<rparr>)) =
          Inl (RateLimitException remaining)"
        by (simp add: limits_def split: prod.splits) (metis fst_conv)
      with body show ?thesis by blast
    qed
  qed
  then have over: "0 < period_remaining w" "remaining = period_remaining w"
    "last_reset w' = last_reset w" "clock w' = clock w" "clamped_calls < num_calls w'"
    by (auto simp: limits_enter_def Let_def clamped_calls_def CALLS_def split: if_splits)
  from pause have after: "clock w'' = clock w' + remaining" "last_reset w'' = last_reset w'"
    by (auto simp: time_sleep_def split: if_splits)
  have "period_remaining w'' \<le> 0"
    using over after by (simp add: period_remaining_def)
  then have "fst (limits_enter w'') = Inr ()"
    by (simp add: limits_enter_def Let_def clamped_calls_def CALLS_def)
  moreover have "fst (limits_enter w) \<noteq> Inr ()" using raised by simp
  ultimately show "((env, delay, w''), (env, delay, w)) \<in>
      measure (\<lambda>(env, delay, w). if fst (limits_enter w) = Inr () then 0 else 1)"
    by simp
qed

declare get_html_content.simps [simp del]

section \<open>parse_html_to_json\<close>

text \<open>
  \<^verbatim>\<open>BeautifulSoup\<close> and \<^verbatim>\<open>json.loads\<close> are library functions: they are parameters of the model.
  A soup has a \<^verbatim>\<open>body\<close> attribute that is a tag or \<^verbatim>\<open>None\<close>; a tag has a \<^verbatim>\<open>text\<close>.
\<close>

record tag =
  tag_text :: string

record soup =
  soup_body :: "tag option"

record library =
  BeautifulSoup :: "bytes \<Rightarrow> exn + soup"
  json_loads :: "string \<Rightarrow> exn + json"

fun is_JSONDecodeError :: "exn \<Rightarrow> bool" where
  "is_JSONDecodeError JSONDecodeError = True"
| "is_JSONDecodeError _ = False"

text \<open>
  Reading \<^verbatim>\<open>.text\<close> of \<^verbatim>\<open>None\<close> raises \<open>AttributeError\<close>. Both handlers log and re-raise the
  exception they caught.
\<close>

definition parse_html_to_json :: "library \<Rightarrow> bytes \<Rightarrow> world \<Rightarrow> (exn + json) \<times> world" where
  "parse_html_to_json lib html_content w =
     (case (case BeautifulSoup lib html_content of
              Inl e \<Rightarrow> Inl e
            | Inr sp \<Rightarrow>
                (case soup_body sp of
                   None \<Rightarrow> Inl AttributeError
                 | Some b \<Rightarrow> json_loads lib (tag_text b))) of
        Inr json_data \<Rightarrow> (Inr json_data, w)
      | Inl e \<Rightarrow>
          if is_JSONDecodeError e then (Inl e, logging JsonParsingError w)
          else (Inl e, logging (UnexpectedParseError e) w))"

section \<open>extract_user_info\<close>

text \<open>Python truth value of a decoded document (\<^verbatim>\<open>not x\<close> is its negation).\<close>

fun truthy :: "json \<Rightarrow> bool" where
  "truthy JNull = False"
| "truthy (JBool b) = b"
| "truthy (JInt i) = (i \<noteq> 0)"
| "truthy (JFloat (Finite q)) = (q \<noteq> 0)"
| "truthy (JFloat _) = True"
| "truthy (JStr s) = (s \<noteq> [])"
| "truthy (JList xs) = (xs \<noteq> [])"
| "truthy (JDict kvs) = (kvs \<noteq> [])"

fun starts_with :: "string \<Rightarrow> string \<Rightarrow> bool" where
  "starts_with [] s = True"
| "starts_with (c # cs) [] = False"
| "starts_with (c # cs) (d # ds) = (c = d \<and> starts_with cs ds)"

fun substring_of :: "string \<Rightarrow> string \<Rightarrow> bool" where
  "substring_of sub [] = (sub = [])"
| "substring_of sub (d # ds) = (starts_with sub (d # ds) \<or> substring_of sub ds)"

text \<open>
  \<^verbatim>\<open>key in x\<close>: key membership for a dict, element membership for a list, substring test for a
  str, \<open>TypeError\<close> for a value that is not a container.
\<close>

definition py_in :: "string \<Rightarrow> json \<Rightarrow> exn + bool" where
  "py_in key x =
     (case x of
        JDict kvs \<Rightarrow> Inr (map_of kvs key \<noteq> None)
      | JList xs \<Rightarrow> Inr (JStr key \<in> set xs)
      | JStr s \<Rightarrow> Inr (substring_of key s)
      | _ \<Rightarrow> Inl TypeError)"

text \<open>\<^verbatim>\<open>x[key]\<close> with a str key: only a dict can be indexed by it.\<close>

definition py_getitem :: "json \<Rightarrow> string \<Rightarrow> exn + json" where
  "py_getitem x key =
     (case x of
        JDict kvs \<Rightarrow> (case map_of kvs key of Some v \<Rightarrow> Inr v | None \<Rightarrow> Inl KeyError)
      | _ \<Rightarrow> Inl TypeError)"

fun isinstance_list :: "json \<Rightarrow> bool" where
  "isinstance_list (JList _) = True"
| "isinstance_list _ = False"

text \<open>\<^verbatim>\<open>x.get(key, default)\<close>: only a dict has the method.\<close>

definition dict_get :: "json \<Rightarrow> string \<Rightarrow> json \<Rightarrow> exn + json" where
  "dict_get x key dflt =
     (case x of
        JDict kvs \<Rightarrow> Inr (case map_of kvs key of Some v \<Rightarrow> v | None \<Rightarrow> dflt)
      | _ \<Rightarrow> Inl AttributeError)"

text \<open>The values a \<^verbatim>\<open>for\<close> loop draws from a value.\<close>

definition py_iter :: "json \<Rightarrow> exn + json list" where
  "py_iter x =
     (case x of
        JList xs \<Rightarrow> Inr xs
      | JStr s \<Rightarrow> Inr (map (\<lambda>c. JStr [c]) s)
      | JDict kvs \<Rightarrow> Inr (map (\<lambda>kv. JStr (fst kv)) kvs)
      | _ \<Rightarrow> Inl TypeError)"

definition bind_exn :: "exn + 'a \<Rightarrow> ('a \<Rightarrow> exn + 'b) \<Rightarrow> exn + 'b" where
  "bind_exn m f = (case m of Inl e \<Rightarrow> Inl e | Inr x \<Rightarrow> f x)"

text \<open>
  The condition of line 119, \<^verbatim>\<open>not json_data or 'data' not in json_data or not
  isinstance(json_data['data'], list)\<close>, evaluated left to right with short-circuit.
\<close>

definition invalid_or_missing_data :: "json \<Rightarrow> exn + bool" where
  "invalid_or_missing_data json_data =
     (if \<not> truthy json_data then Inr True
      else bind_exn (py_in ''data'' json_data) (\<lambda>present.
        if \<not> present then Inr True
        else bind_exn (py_getitem json_data ''data'') (\<lambda>d. Inr (\<not> isinstance_list d))))"

text \<open>Lines 128-141: the ten \<^verbatim>\<open>user_info.get\<close> calls, in the order of the dict display.\<close>

definition build_extracted_user_info :: "json \<Rightarrow> exn + extracted_user_info" where
  "build_extracted_user_info user_info =
     bind_exn (dict_get user_info ''id'' JNull) (\<lambda>v_id.
     bind_exn (dict_get user_info ''username'' JNull) (\<lambda>v_username.
     bind_exn (dict_get user_info ''bio'' JNull) (\<lambda>v_bio.
     bind_exn (dict_get user_info ''instagram'' JNull) (\<lambda>v_instagram.
     bind_exn (dict_get user_info ''twitter'' JNull) (\<lambda>v_twitter.
     bind_exn (dict_get user_info ''youtube'' JNull) (\<lambda>v_youtube.
     bind_exn (dict_get user_info ''discord'' JNull) (\<lambda>v_discord.
     bind_exn (dict_get user_info ''tiktok'' JNull) (\<lambda>v_tiktok.
     bind_exn (dict_get user_info ''facebook'' JNull) (\<lambda>v_facebook.
     bind_exn (dict_get user_info ''profilepic'' JNull) (\<lambda>v_profilepic.
       Inr \<lparr>user_id = v_id, username = v_username, bio = v_bio,
            social = \<lparr>instagram = v_instagram, twitter = v_twitter, youtube = v_youtube,
                      discord = v_discord, tiktok = v_tiktok, facebook = v_facebook\<rparr>,
            profilepic = v_profilepic\<rparr>))))))))))"

text \<open>The body of the loop, lines 124-145, for one item.\<close>

definition extract_item :: "json \<Rightarrow> world \<Rightarrow> (exn + unit) \<times> world" where
  "extract_item item w =
     (case dict_get item ''channel'' (JDict []) of
        Inl e \<Rightarrow> (Inl e, w)
      | Inr channel_info \<Rightarrow>
          (case dict_get channel_info ''user'' (JDict []) of
             Inl e \<Rightarrow> (Inl e, w)
           | Inr user_info \<Rightarrow>
               (case build_extracted_user_info user_info of
                  Inl e \<Rightarrow> (Inl e, w)
                | Inr extracted \<Rightarrow>
                    (Inr (), logging (UserInfo extracted) (logging (ChannelInfo channel_info) w)))))"

fun extract_items :: "json list \<Rightarrow> world \<Rightarrow> (exn + unit) \<times> world" where
  "extract_items [] w = (Inr (), w)"
| "extract_items (item # rest) w =
     (case extract_item item w of
        (Inl e, w') \<Rightarrow> (Inl e, w')
      | (Inr _, w') \<Rightarrow> extract_items rest w')"

text \<open>
  The two handlers raise a new \<open>ValueError\<close> whose message is a plain string literal (the
  braces are not substituted); the exception caught becomes its context.
\<close>

definition extract_user_info :: "json \<Rightarrow> world \<Rightarrow> (exn + unit) \<times> world" where
  \<open>extract_user_info json_data w =
     (case (case invalid_or_missing_data json_data of
              Inl e \<Rightarrow> (Inl e, w)
            | Inr True \<Rightarrow> (Inl (ValueError ''Invalid or missing "data" field in JSON data.'' None), w)
            | Inr False \<Rightarrow>
                (case bind_exn (py_getitem json_data ''data'') py_iter of
                   Inl e \<Rightarrow> (Inl e, w)
                 | Inr items \<Rightarrow> extract_items items w)) of
        (Inr u, w') \<Rightarrow> (Inr u, w')
      | (Inl e, w') \<Rightarrow>
          if is_ValueError e then (Inl (ValueError ''Data extraction error: {ve}'' (Some e)), w')
          else (Inl (ValueError ''Unexpected error during data extraction: {e}'' (Some e)), w'))\<close>

section \<open>main\<close>

text \<open>
  \<^verbatim>\<open>main\<close> calls \<^verbatim>\<open>get_html_content\<close> with the default \<^verbatim>\<open>delay=1.0\<close>. \<^verbatim>\<open>not html_content\<close> holds
  for \<^verbatim>\<open>None\<close> and for the empty byte string. Whatever is raised inside the \<^verbatim>\<open>try\<close> is replaced
  by a \<open>ValueError\<close> with a fixed message and the caught exception as context.
\<close>

definition main :: "library \<Rightarrow> (nat \<Rightarrow> attempt_outcome) \<Rightarrow> world \<Rightarrow> (exn + unit) \<times> world" where
  "main lib env w =
     (case (case get_html_content env 1 w of
              (Inl e, w1) \<Rightarrow> (Inl e, w1)
            | (Inr None, w1) \<Rightarrow> (Inl (ValueError ''Failed to retrieve HTML content.'' None), w1)
            | (Inr (Some html_content), w1) \<Rightarrow>
                if html_content = [] then
                  (Inl (ValueError ''Failed to retrieve HTML content.'' None), w1)
                else
                  (case parse_html_to_json lib html_content w1 of
                     (Inl e, w2) \<Rightarrow> (Inl e, w2)
                   | (Inr json_data, w2) \<Rightarrow>
                       if \<not> truthy json_data then
                         (Inl (ValueError ''Failed to parse HTML content to JSON.'' None), w2)
                       else extract_user_info json_data w2)) of
        (Inr u, w') \<Rightarrow> (Inr u, w')
      | (Inl e, w') \<Rightarrow> (Inl (ValueError ''An error occurred: {e}'' (Some e)), w'))"

section \<open>Vocabulary of the properties\<close>

text \<open>
  A transient failure is an attempt that raises a \<open>RequestException\<close> other than
  \<open>HTTPError\<close>: a connection error (DNS failures included) or a timeout.
\<close>

definition transient_failure :: "attempt_outcome \<Rightarrow> bool" where
  "transient_failure out =
     (case request_attempt out of
        Inl e \<Rightarrow> is_RequestException e \<and> \<not> is_HTTPError e
      | Inr _ \<Rightarrow> False)"

text \<open>A failure that ends the loop at once: an HTTP status error, or any exception that is not
  a \<open>RequestException\<close> (a rate-limit signal, anything unexpected).\<close>

definition terminal_failure :: "attempt_outcome \<Rightarrow> bool" where
  "terminal_failure out =
     (case request_attempt out of
        Inl e \<Rightarrow> is_HTTPError e \<or> \<not> is_RequestException e
      | Inr _ \<Rightarrow> False)"

text \<open>The lengths \<^verbatim>\<open>time.sleep\<close> pauses for instead of raising.\<close>

definition sleep_accepts :: "world \<Rightarrow> rat \<Rightarrow> bool" where
  "sleep_accepts w secs =
     (0 \<le> secs \<and> secs * 1000000000 \<le> 9223372036854775807 \<and> secs \<le> sleep_limit w)"

text \<open>
  The worlds a run can be in: the limiter was last reset in the past (the clock never goes
  back), and the platform can pause for one period of the limiter.
\<close>

definition world_ok :: "world \<Rightarrow> bool" where
  "world_ok w = (last_reset w \<le> clock w \<and> of_nat PERIOD \<le> sleep_limit w)"

text \<open>
  The pause the limiter imposes on a call made in a world: the rest of the period when the
  period is still running and the count has reached the maximum, none otherwise.
\<close>

definition limiter_wait :: "world \<Rightarrow> rat list" where
  "limiter_wait w =
     (if 0 < period_remaining w \<and> clamped_calls \<le> num_calls w then [period_remaining w] else [])"

text \<open>
  The world in which the body of a call starts: after the limiter's pause, if any, with
  the call counted and noted.
\<close>

definition admitted_world :: "world \<Rightarrow> world" where
  "admitted_world w =
     (if 0 < period_remaining w \<and> clamped_calls \<le> num_calls w then
        w\<lparr>num_calls := 1, last_reset := clock w + period_remaining w,
          slept := slept w @ [period_remaining w], clock := clock w + period_remaining w,
          admitted_at := admitted_at w @ [clock w + period_remaining w]\<rparr>
      else if period_remaining w \<le> 0 then
        w\<lparr>num_calls := 1, last_reset := clock w, admitted_at := admitted_at w @ [clock w]\<rparr>
      else
        w\<lparr>num_calls := num_calls w + 1, admitted_at := admitted_at w @ [clock w]\<rparr>)"

text \<open>The world in which the next attempt starts after a failed attempt and its pause.\<close>

definition after_failed_attempt :: "nat \<Rightarrow> rat \<Rightarrow> exn \<Rightarrow> world \<Rightarrow> world" where
  "after_failed_attempt attempt delay e w =
     (let w1 = logging (AttemptFailedRetrying attempt delay e) (issue_request w)
      in w1\<lparr>slept := slept w1 @ [delay], clock := clock w1 + delay\<rparr>)"

text \<open>
  A world to run examples in: nothing has happened yet, the limiter has just been created,
  every request takes half a second, and the platform accepts pauses of up to 9.2e9
  seconds.
\<close>

definition fresh_world :: world where
  "fresh_world =
     \<lparr>requests_made = 0, slept = [], log = [], admitted_at = [], clock = 0,
      request_seconds = (\<lambda>n. 1 / 2), sleep_limit = 9200000000,
      last_reset = 0, num_calls = 0\<rparr>"

text \<open>The lines logged between two worlds, and the user records among some lines.\<close>

definition emitted :: "world \<Rightarrow> world \<Rightarrow> log_event list" where
  "emitted w w' = drop (length (log w)) (log w')"

fun user_records :: "log_event list \<Rightarrow> extracted_user_info list" where
  "user_records [] = []"
| "user_records (UserInfo r # evs) = r # user_records evs"
| "user_records (_ # evs) = user_records evs"

text \<open>
  The record the specification asks for, in its words: the fields at the paths
  \<open>channel\<close>, \<open>user\<close>, field name; a missing nested object or a missing leaf is absent
  (\<^verbatim>\<open>None\<close>, here \<open>JNull\<close>).
\<close>

fun path_lookup :: "string list \<Rightarrow> json \<Rightarrow> json option" where
  "path_lookup [] v = Some v"
| "path_lookup (k # ks) (JDict kvs) =
     (case map_of kvs k of None \<Rightarrow> None | Some v \<Rightarrow> path_lookup ks v)"
| "path_lookup (k # ks) _ = None"

definition optional_field :: "string \<Rightarrow> json \<Rightarrow> json" where
  "optional_field name item =
     (case path_lookup [''channel'', ''user'', name] item of None \<Rightarrow> JNull | Some v \<Rightarrow> v)"

definition spec_user_record :: "json \<Rightarrow> extracted_user_info" where
  "spec_user_record item =
     \<lparr>user_id = optional_field ''id'' item,
      username = optional_field ''username'' item,
      bio = optional_field ''bio'' item,
      social = \<lparr>instagram = optional_field ''instagram'' item,
                twitter = optional_field ''twitter'' item,
                youtube = optional_field ''youtube'' item,
                discord = optional_field ''discord'' item,
                tiktok = optional_field ''tiktok'' item,
                facebook = optional_field ''facebook'' item\<rparr>,
      profilepic = optional_field ''profilepic'' item\<rparr>"

text \<open>
  An element the loop body can process: an object whose \<open>channel\<close>, when present, is an
  object whose \<open>user\<close>, when present, is an object.
\<close>

fun is_object :: "json \<Rightarrow> bool" where
  "is_object (JDict _) = True"
| "is_object _ = False"

definition well_formed_item :: "json \<Rightarrow> bool" where
  "well_formed_item item =
     (case item of
        JDict kvs \<Rightarrow>
          (case map_of kvs ''channel'' of
             None \<Rightarrow> True
           | Some (JDict ckvs) \<Rightarrow>
               (case map_of ckvs ''user'' of None \<Rightarrow> True | Some u \<Rightarrow> is_object u)
           | Some _ \<Rightarrow> False)
      | _ \<Rightarrow> False)"

text \<open>
  The top-level shape of the specification: an object containing a key \<open>data\<close> whose value
  is an ordered sequence.
\<close>

definition top_level_ok :: "json \<Rightarrow> bool" where
  "top_level_ok doc =
     (case doc of
        JDict kvs \<Rightarrow> (case map_of kvs ''data'' of Some (JList _) \<Rightarrow> True | _ \<Rightarrow> False)
      | _ \<Rightarrow> False)"

text \<open>
  The invalid-shape error: the \<open>ValueError\<close> of the first handler of \<^verbatim>\<open>extract_user_info\<close>,
  recognised by its context, the \<open>ValueError\<close> raised at line 120.
\<close>

definition is_invalid_shape_error :: "exn \<Rightarrow> bool" where
  \<open>is_invalid_shape_error e =
     (case e of
        ValueError _ (Some (ValueError m None)) \<Rightarrow> m = ''Invalid or missing "data" field in JSON data.''
      | _ \<Rightarrow> False)\<close>

definition fails_with_invalid_shape :: "json \<Rightarrow> world \<Rightarrow> bool" where
  "fails_with_invalid_shape doc w =
     (case fst (extract_user_info doc w) of Inl e \<Rightarrow> is_invalid_shape_error e | Inr _ \<Rightarrow> False)"

text \<open>
  A necessary condition for a text to be valid JSON (RFC 8259): after leading whitespace
  it starts with the first character of an object, an array, a string, a number or one
  of the literals \<^verbatim>\<open>true\<close>, \<^verbatim>\<open>false\<close>, \<^verbatim>\<open>null\<close>.
\<close>

definition starts_like_json :: "string \<Rightarrow> bool" where
  \<open>starts_like_json s =
     (case dropWhile (\<lambda>c. c \<in> set [CHR '' '', CHR 0x09, CHR 0x0A, CHR 0x0D]) s of
        [] \<Rightarrow> False
      | c # _ \<Rightarrow> c \<in> set ''{["-0123456789tfn'')\<close>




text \<open>
  A stand-in for the two libraries, to run the definitions on concrete bodies. The soup of
  a body has as body text what lies between the first \<^verbatim>\<open><body>\<close> and the next \<^verbatim>\<open></body>\<close>, and
  no body when there is no \<^verbatim>\<open><body>\<close>. The decoder is a table of texts with what \<^verbatim>\<open>json.loads\<close>
  returns for them (it decodes \<^verbatim>\<open>NaN\<close> to the float of that name), and it rejects the text
  \<^verbatim>\<open>not json\<close>; it is not used on any other text.
\<close>

fun after_marker :: "string \<Rightarrow> string \<Rightarrow> string option" where
  "after_marker m [] = (if m = [] then Some [] else None)"
| "after_marker m (c # cs) =
     (if starts_with m (c # cs) then Some (drop (length m) (c # cs)) else after_marker m cs)"

fun before_marker :: "string \<Rightarrow> string \<Rightarrow> string" where
  "before_marker m [] = []"
| "before_marker m (c # cs) = (if starts_with m (c # cs) then [] else c # before_marker m cs)"

definition sample_BeautifulSoup :: "bytes \<Rightarrow> exn + soup" where
  "sample_BeautifulSoup html_content =
     Inr \<lparr>soup_body = map_option (\<lambda>rest. \<lparr>tag_text = before_marker ''</body>'' rest\<rparr>)
                        (after_marker ''<body>'' html_content)\<rparr>"

definition sample_json_loads :: "string \<Rightarrow> exn + json" where
  \<open>sample_json_loads s =
     (if s = ''{"data":[]}'' then Inr (JDict [(''data'', JList [])])
      else if s = ''null'' then Inr JNull
      else if s = ''0'' then Inr (JInt 0)
      else if s = ''false'' then Inr (JBool False)
      else if s = ''{}'' then Inr (JDict [])
      else if s = ''[]'' then Inr (JList [])
      else if s = ''5'' then Inr (JInt 5)
      else if s = ''NaN'' then Inr (JFloat NaN)
      else if s = ''{"data":[{},1]}'' then Inr (JDict [(''data'', JList [JDict [], JInt 1])])
      else if s = ''{"data":[{"channel":{"user":{"id":"1","username":"a"}}}]}'' then
        Inr (JDict [(''data'', JList [JDict [(''channel'', JDict [(''user'',
               JDict [(''id'', JStr ''1''), (''username'', JStr ''a'')])])]])])
      else Inl JSONDecodeError)\<close>

definition sample_library :: library where
  "sample_library = \<lparr>BeautifulSoup = sample_BeautifulSoup, json_loads = sample_json_loads\<rparr>"

section \<open>The retry loop\<close>

lemma issue_request_fields [simp]:
  "requests_made (issue_request w) = Suc (requests_made w)"
  "slept (issue_request w) = slept w"
  "log (issue_request w) = log w"
  "admitted_at (issue_request w) = admitted_at w"
  "clock (issue_request w) = clock w + request_seconds w (requests_made w)"
  "request_seconds (issue_request w) = request_seconds w"
  "sleep_limit (issue_request w) = sleep_limit w"
  "last_reset (issue_request w) = last_reset w"
  "num_calls (issue_request w) = num_calls w"
  by (simp_all add: issue_request_def)

lemma logging_fields [simp]:
  "requests_made (logging ev w) = requests_made w"
  "slept (logging ev w) = slept w"
  "log (logging ev w) = log w @ [ev]"
  "admitted_at (logging ev w) = admitted_at w"
  "clock (logging ev w) = clock w"
  "request_seconds (logging ev w) = request_seconds w"
  "sleep_limit (logging ev w) = sleep_limit w"
  "last_reset (logging ev w) = last_reset w"
  "num_calls (logging ev w) = num_calls w"
  by (simp_all add: logging_def)

lemma after_failed_attempt_fields [simp]:
  "requests_made (after_failed_attempt n delay e w) = Suc (requests_made w)"
  "slept (after_failed_attempt n delay e w) = slept w @ [delay]"
  "log (after_failed_attempt n delay e w) = log w @ [AttemptFailedRetrying n delay e]"
  "admitted_at (after_failed_attempt n delay e w) = admitted_at w"
  "clock (after_failed_attempt n delay e w) = clock w + request_seconds w (requests_made w) + delay"
  "request_seconds (after_failed_attempt n delay e w) = request_seconds w"
  "sleep_limit (after_failed_attempt n delay e w) = sleep_limit w"
  "last_reset (after_failed_attempt n delay e w) = last_reset w"
  "num_calls (after_failed_attempt n delay e w) = num_calls w"
  by (simp_all add: after_failed_attempt_def Let_def)

lemma sleep_accepts_cong: "sleep_limit w' = sleep_limit w \<Longrightarrow> sleep_accepts w' = sleep_accepts w"
  by (simp add: sleep_accepts_def fun_eq_iff)

lemma time_sleep_accepted:
  "sleep_accepts w secs \<Longrightarrow>
   time_sleep secs handled w = (Inr (), w\<lparr>slept := slept w @ [secs], clock := clock w + secs\<rparr>)"
  by (simp add: time_sleep_def sleep_accepts_def)

lemma time_sleep_rejected:
  "\<not> sleep_accepts w secs \<Longrightarrow>
   \<exists>err. time_sleep secs handled w = (Inl err, w) \<and> \<not> is_RateLimitException err"
  by (auto simp: time_sleep_def sleep_accepts_def)

lemma loop_exit: "\<not> attempt < RETRY_TIMES \<Longrightarrow> attempt_loop env delay attempt w = (Inr None, w)"
  by (simp add: attempt_loop.simps)

lemma loop_success:
  "attempt < RETRY_TIMES \<Longrightarrow> request_attempt (env (requests_made w)) = Inr content \<Longrightarrow>
   attempt_loop env delay attempt w = (Inr (Some content), issue_request w)"
  by (simp add: attempt_loop.simps)

lemma loop_retry:
  "attempt < RETRY_TIMES - 1 \<Longrightarrow> sleep_accepts w delay \<Longrightarrow>
   request_attempt (env (requests_made w)) = Inl e \<Longrightarrow>
   is_RequestException e \<Longrightarrow> \<not> is_HTTPError e \<Longrightarrow>
   attempt_loop env delay attempt w =
     attempt_loop env delay (Suc attempt) (after_failed_attempt (Suc attempt) delay e w)"
proof -
  assume a: "attempt < RETRY_TIMES - 1"
  then have lt: "attempt < RETRY_TIMES" by simp
  assume acc: "sleep_accepts w delay"
  then have "sleep_accepts (logging (AttemptFailedRetrying (Suc attempt) delay e) (issue_request w)) delay"
    by (simp add: sleep_accepts_def)
  note sl = time_sleep_accepted [OF this, of e]
  assume "request_attempt (env (requests_made w)) = Inl e"
    "is_RequestException e" "\<not> is_HTTPError e"
  then show ?thesis using a lt
    by (subst attempt_loop.simps) (simp add: sl after_failed_attempt_def Let_def)
qed

lemma loop_sleep_rejected:
  "attempt < RETRY_TIMES - 1 \<Longrightarrow> \<not> sleep_accepts w delay \<Longrightarrow>
   request_attempt (env (requests_made w)) = Inl e \<Longrightarrow>
   is_RequestException e \<Longrightarrow> \<not> is_HTTPError e \<Longrightarrow>
   \<exists>err. time_sleep delay e (logging (AttemptFailedRetrying (Suc attempt) delay e) (issue_request w)) =
           (Inl err, logging (AttemptFailedRetrying (Suc attempt) delay e) (issue_request w)) \<and>
         attempt_loop env delay attempt w =
           (Inl err, logging (AttemptFailedRetrying (Suc attempt) delay e) (issue_request w))"
proof -
  assume a: "attempt < RETRY_TIMES - 1"
  then have lt: "attempt < RETRY_TIMES" by simp
  let ?w = "logging (AttemptFailedRetrying (Suc attempt) delay e) (issue_request w)"
  assume "\<not> sleep_accepts w delay"
  then have "\<not> sleep_accepts ?w delay" by (simp add: sleep_accepts_def)
  from time_sleep_rejected [OF this, of e] obtain err where
    err: "time_sleep delay e ?w = (Inl err, ?w)" by blast
  assume "request_attempt (env (requests_made w)) = Inl e"
    "is_RequestException e" "\<not> is_HTTPError e"
  then have "attempt_loop env delay attempt w = (Inl err, ?w)" using a lt err
    by (subst attempt_loop.simps) simp
  with err show ?thesis by blast
qed

lemma loop_exhausted:
  "attempt = RETRY_TIMES - 1 \<Longrightarrow> request_attempt (env (requests_made w)) = Inl e \<Longrightarrow>
   is_RequestException e \<Longrightarrow> \<not> is_HTTPError e \<Longrightarrow>
   attempt_loop env delay attempt w =
     (Inr None, logging (FailedAfterAttempts RETRY_TIMES e) (issue_request w))"
  by (subst attempt_loop.simps) (simp add: RETRY_TIMES_def)

lemma loop_terminal:
  "attempt < RETRY_TIMES \<Longrightarrow> request_attempt (env (requests_made w)) = Inl e \<Longrightarrow>
   is_HTTPError e \<or> \<not> is_RequestException e \<Longrightarrow>
   attempt_loop env delay attempt w =
     (Inr None, logging (if is_HTTPError e then HttpErrorEncountered e
                         else if is_RateLimitException e then RateLimitExceeded e
                         else UnexpectedError e) (issue_request w))"
  by (subst attempt_loop.simps) auto

lemma transient_failureD:
  "transient_failure out \<Longrightarrow> \<exists>e. request_attempt out = Inl e \<and> is_RequestException e \<and> \<not> is_HTTPError e"
  by (auto simp: transient_failure_def split: sum.splits)

lemma terminal_failureD:
  "terminal_failure out \<Longrightarrow> \<exists>e. request_attempt out = Inl e \<and> (is_HTTPError e \<or> \<not> is_RequestException e)"
  by (auto simp: terminal_failure_def split: sum.splits)

text \<open>
  After \<open>k\<close> transient failures, each followed by its pause, the loop is at attempt
  \<open>a + k\<close> in a world that differs by \<open>k\<close> requests, \<open>k\<close> pauses and \<open>k\<close> warnings.
\<close>

lemma skip_transient:
  "sleep_accepts w delay \<Longrightarrow> a + k < RETRY_TIMES \<Longrightarrow>
   (\<forall>j<k. transient_failure (env (requests_made w + j))) \<Longrightarrow>
   \<exists>w1 evs. attempt_loop env delay a w = attempt_loop env delay (a + k) w1 \<and>
        requests_made w1 = requests_made w + k \<and>
        slept w1 = slept w @ replicate k delay \<and>
        log w1 = log w @ evs \<and> length evs = k \<and>
        sleep_limit w1 = sleep_limit w \<and> admitted_at w1 = admitted_at w \<and>
        last_reset w1 = last_reset w \<and> num_calls w1 = num_calls w"
proof (induction k arbitrary: a w)
  case 0
  show ?case by (intro exI [of _ w] exI [of _ "[]"]) simp
next
  case (Suc k)
  from Suc.prems(3) have "transient_failure (env (requests_made w))"
    by (metis add.right_neutral zero_less_Suc)
  then obtain e where e: "request_attempt (env (requests_made w)) = Inl e"
    "is_RequestException e" "\<not> is_HTTPError e"
    using transient_failureD by blast
  let ?w = "after_failed_attempt (Suc a) delay e w"
  from Suc.prems(2) have a: "a < RETRY_TIMES - 1" by simp
  have step: "attempt_loop env delay a w = attempt_loop env delay (Suc a) ?w"
    using loop_retry [of a w delay env e] a Suc.prems(1) e by blast
  have acc: "sleep_accepts ?w delay"
    using Suc.prems(1) by (simp add: sleep_accepts_def)
  have "\<forall>j<k. transient_failure (env (requests_made ?w + j))"
  proof (intro allI impI)
    fix j assume "j < k"
    then have "Suc j < Suc k" by simp
    with Suc.prems(3) have "transient_failure (env (requests_made w + Suc j))" by blast
    then show "transient_failure (env (requests_made ?w + j))" by simp
  qed
  moreover have "Suc a + k < RETRY_TIMES" using Suc.prems(2) by simp
  ultimately obtain w1 evs where w1:
    "attempt_loop env delay (Suc a) ?w = attempt_loop env delay (Suc a + k) w1"
    "requests_made w1 = requests_made ?w + k" "slept w1 = slept ?w @ replicate k delay"
    "log w1 = log ?w @ evs" "length evs = k"
    "sleep_limit w1 = sleep_limit ?w" "admitted_at w1 = admitted_at ?w"
    "last_reset w1 = last_reset ?w" "num_calls w1 = num_calls ?w"
    using Suc.IH [of ?w "Suc a"] acc by blast
  show ?case
  proof (intro exI [of _ w1] exI [of _ "AttemptFailedRetrying (Suc a) delay e # evs"] conjI)
    show "attempt_loop env delay a w = attempt_loop env delay (a + Suc k) w1"
      using step w1(1) by simp
    show "requests_made w1 = requests_made w + Suc k" using w1(2) by simp
    show "slept w1 = slept w @ replicate (Suc k) delay"
      using w1(3) by (simp add: replicate_app_Cons_same)
    show "log w1 = log w @ AttemptFailedRetrying (Suc a) delay e # evs" using w1(4) by simp
    show "length (AttemptFailedRetrying (Suc a) delay e # evs) = Suc k" using w1(5) by simp
    show "sleep_limit w1 = sleep_limit w" using w1(6) by simp
    show "admitted_at w1 = admitted_at w" using w1(7) by simp
    show "last_reset w1 = last_reset w" using w1(8) by simp
    show "num_calls w1 = num_calls w" using w1(9) by simp
  qed
qed

lemma run_to_success:
  assumes "sleep_accepts w delay" "a + k < RETRY_TIMES"
    "\<forall>j<k. transient_failure (env (requests_made w + j))"
    "request_attempt (env (requests_made w + k)) = Inr content"
  shows "fst (attempt_loop env delay a w) = Inr (Some content) \<and>
         requests_made (snd (attempt_loop env delay a w)) = requests_made w + Suc k \<and>
         slept (snd (attempt_loop env delay a w)) = slept w @ replicate k delay"
proof -
  from skip_transient [OF assms(1,2,3)] obtain w1 where
    w1: "attempt_loop env delay a w = attempt_loop env delay (a + k) w1"
        "requests_made w1 = requests_made w + k" "slept w1 = slept w @ replicate k delay"
    by blast
  from assms(4) w1(2) have "request_attempt (env (requests_made w1)) = Inr content" by simp
  from loop_success [of "a + k" env w1 content delay] assms(2) this w1 show ?thesis by simp
qed

lemma run_to_terminal:
  assumes "sleep_accepts w delay" "a + k < RETRY_TIMES"
    "\<forall>j<k. transient_failure (env (requests_made w + j))"
    "terminal_failure (env (requests_made w + k))"
  shows "fst (attempt_loop env delay a w) = Inr None \<and>
         requests_made (snd (attempt_loop env delay a w)) = requests_made w + Suc k \<and>
         slept (snd (attempt_loop env delay a w)) = slept w @ replicate k delay"
proof -
  from skip_transient [OF assms(1,2,3)] obtain w1 where
    w1: "attempt_loop env delay a w = attempt_loop env delay (a + k) w1"
        "requests_made w1 = requests_made w + k" "slept w1 = slept w @ replicate k delay"
    by blast
  from assms(4) w1(2) obtain e where e: "request_attempt (env (requests_made w1)) = Inl e"
    "is_HTTPError e \<or> \<not> is_RequestException e"
    using terminal_failureD by metis
  from loop_terminal [of "a + k" env w1 e delay] assms(2) e w1 show ?thesis by simp
qed

lemma run_exhausted:
  assumes "sleep_accepts w delay" "a + Suc k = RETRY_TIMES"
    "\<forall>j<Suc k. transient_failure (env (requests_made w + j))"
  shows "fst (attempt_loop env delay a w) = Inr None \<and>
         requests_made (snd (attempt_loop env delay a w)) = requests_made w + Suc k \<and>
         slept (snd (attempt_loop env delay a w)) = slept w @ replicate k delay \<and>
         (\<exists>evs e. log (snd (attempt_loop env delay a w)) =
                    log w @ evs @ [FailedAfterAttempts RETRY_TIMES e])"
proof -
  have lt: "a + k < RETRY_TIMES" using assms(2) by simp
  have "\<forall>j<k. transient_failure (env (requests_made w + j))" using assms(3) by simp
  from skip_transient [OF assms(1) lt this] obtain w1 evs where
    w1: "attempt_loop env delay a w = attempt_loop env delay (a + k) w1"
        "requests_made w1 = requests_made w + k" "slept w1 = slept w @ replicate k delay"
        "log w1 = log w @ evs"
    by blast
  from assms(3) have "transient_failure (env (requests_made w + k))" by simp
  with w1(2) obtain e where e: "request_attempt (env (requests_made w1)) = Inl e"
    "is_RequestException e" "\<not> is_HTTPError e"
    using transient_failureD by metis
  have "a + k = RETRY_TIMES - 1" using assms(2) by simp
  from loop_exhausted [of "a + k" env w1 e delay] this e
  have "attempt_loop env delay (a + k) w1 =
          (Inr None, logging (FailedAfterAttempts RETRY_TIMES e) (issue_request w1))" by blast
  with w1 show ?thesis by simp
qed

section \<open>The rate limiter\<close>

lemma attempt_loop_no_rate_limit:
  "fst (attempt_loop env delay a w) \<noteq> Inl (RateLimitException r)"
proof (induction env delay a w rule: attempt_loop.induct)
  case (1 env delay attempt w)
  show ?case
    using 1
    by (subst attempt_loop.simps)
       (auto simp: time_sleep_def split: sum.splits prod.splits if_splits)
qed

lemma limits_enter_pass:
  "period_remaining w \<le> 0 \<or> num_calls w < clamped_calls \<Longrightarrow>
   limits_enter w =
     (Inr (), if period_remaining w \<le> 0 then w\<lparr>num_calls := 1, last_reset := clock w\<rparr>
              else w\<lparr>num_calls := num_calls w + 1\<rparr>)"
  by (auto simp: limits_enter_def Let_def clamped_calls_def CALLS_def)

lemma limits_enter_raise:
  "0 < period_remaining w \<Longrightarrow> clamped_calls \<le> num_calls w \<Longrightarrow>
   limits_enter w =
     (Inl (RateLimitException (period_remaining w)), w\<lparr>num_calls := num_calls w + 1\<rparr>)"
  by (auto simp: limits_enter_def Let_def)

lemma not_rate_limit_result:
  "fst rw \<noteq> Inl (RateLimitException r0) \<Longrightarrow> (\<And>r. fst rw \<noteq> Inl (RateLimitException r)) \<Longrightarrow>
   (case rw of
      (Inl (RateLimitException remaining), w') \<Rightarrow> f remaining w'
    | (r, w') \<Rightarrow> (r, w')) = rw"
  by (cases rw) (auto split: sum.splits exn.splits)

lemma get_html_content_passes:
  assumes "period_remaining w \<le> 0 \<or> num_calls w < clamped_calls"
  shows "get_html_content env delay w = attempt_loop env delay 0 (admitted_world w)"
proof -
  have not_wait: "\<not> (0 < period_remaining w \<and> clamped_calls \<le> num_calls w)"
    using assms by auto
  have lim: "limits (attempt_loop env delay 0) w = attempt_loop env delay 0 (admitted_world w)"
    using not_wait
    by (auto simp: limits_def limits_enter_pass [OF assms] admitted_world_def)
  show ?thesis
    by (subst get_html_content.simps)
       (simp add: lim not_rate_limit_result [OF attempt_loop_no_rate_limit attempt_loop_no_rate_limit])
qed

lemma get_html_content_waits:
  assumes wait: "0 < period_remaining w" "clamped_calls \<le> num_calls w"
    and acc: "sleep_accepts w (period_remaining w)"
  shows "get_html_content env delay w = attempt_loop env delay 0 (admitted_world w)"
proof -
  let ?r = "period_remaining w"
  let ?w1 = "w\<lparr>num_calls := num_calls w + 1\<rparr>"
  let ?w2 = "?w1\<lparr>slept := slept ?w1 @ [?r], clock := clock ?w1 + ?r\<rparr>"
  have lim: "limits (attempt_loop env delay 0) w = (Inl (RateLimitException ?r), ?w1)"
    by (simp add: limits_def limits_enter_raise [OF wait])
  have "sleep_accepts ?w1 ?r" using acc by (simp add: sleep_accepts_def)
  from time_sleep_accepted [OF this]
  have sl: "time_sleep ?r (RateLimitException ?r) ?w1 = (Inr (), ?w2)" .
  have step: "get_html_content env delay w = get_html_content env delay ?w2"
    by (subst get_html_content.simps) (use sl in \<open>simp add: lim\<close>)
  have expired: "period_remaining ?w2 \<le> 0" by (simp add: period_remaining_def)
  have adm: "admitted_world ?w2 = admitted_world w"
    using wait by (simp add: admitted_world_def period_remaining_def)
  show ?thesis
    unfolding step using get_html_content_passes [of ?w2 env delay] expired adm by simp
qed

lemma world_ok_wait_accepted:
  "world_ok w \<Longrightarrow> 0 < period_remaining w \<Longrightarrow> sleep_accepts w (period_remaining w)"
  by (simp add: world_ok_def sleep_accepts_def period_remaining_def PERIOD_def)

text \<open>Every call gets through the limiter, after at most one pause, and runs the body once.\<close>

lemma get_html_content_body:
  assumes "world_ok w"
  shows "get_html_content env delay w = attempt_loop env delay 0 (admitted_world w)"
proof (cases "0 < period_remaining w \<and> clamped_calls \<le> num_calls w")
  case True
  with world_ok_wait_accepted [OF assms] show ?thesis
    by (simp add: get_html_content_waits)
next
  case False
  then have "period_remaining w \<le> 0 \<or> num_calls w < clamped_calls" by auto
  then show ?thesis by (rule get_html_content_passes)
qed

lemma admitted_world_fields [simp]:
  "requests_made (admitted_world w) = requests_made w"
  "log (admitted_world w) = log w"
  "slept (admitted_world w) = slept w @ limiter_wait w"
  "sleep_limit (admitted_world w) = sleep_limit w"
  "request_seconds (admitted_world w) = request_seconds w"
  by (simp_all add: admitted_world_def limiter_wait_def)

lemma sleep_accepts_admitted [simp]: "sleep_accepts (admitted_world w) = sleep_accepts w"
  by (rule sleep_accepts_cong) simp

section \<open>Retries and failures of get_html_content\<close>

lemma fresh_world_ok: "world_ok fresh_world"
  by (simp add: world_ok_def fresh_world_def PERIOD_def)

lemma fresh_world_accepts_default: "sleep_accepts fresh_world 1"
  by (simp add: sleep_accepts_def fresh_world_def)

lemma fresh_world_no_wait: "limiter_wait fresh_world = []"
  by (simp add: limiter_wait_def fresh_world_def clamped_calls_def CALLS_def)

text \<open>
  Claim C1, as amended. In a world a run can be in, with a delay that \<^verbatim>\<open>time.sleep\<close> accepts
  and a network on which the only failures are transient ones, \<^verbatim>\<open>get_html_content\<close> issues
  between one and three requests and, after the limiter's pause if there is one, pauses
  for exactly \<open>delay\<close> between consecutive requests; three transient failures in a row
  give \<^verbatim>\<open>None\<close> after exactly three requests, with the "failed after 3 attempts" error logged
  last; a success at attempt \<open>k \<le> 3\<close> after \<open>k - 1\<close> transient failures gives the content
  after exactly \<open>k\<close> requests.
\<close>

theorem get_html_content_retries_transient:
  assumes ok: "world_ok w" and delay: "sleep_accepts w delay"
    and only_transient: "\<forall>k<3. transient_failure (env (requests_made w + k)) \<or>
                           (\<exists>content. request_attempt (env (requests_made w + k)) = Inr content)"
  shows "(\<exists>n. 1 \<le> n \<and> n \<le> 3 \<and>
              requests_made (snd (get_html_content env delay w)) = requests_made w + n \<and>
              slept (snd (get_html_content env delay w)) =
                slept w @ limiter_wait w @ replicate (n - 1) delay) \<and>
         ((\<forall>k<3. transient_failure (env (requests_made w + k))) \<longrightarrow>
            fst (get_html_content env delay w) = Inr None \<and>
            requests_made (snd (get_html_content env delay w)) = requests_made w + 3 \<and>
            (\<exists>evs e. log (snd (get_html_content env delay w)) =
                       log w @ evs @ [FailedAfterAttempts 3 e])) \<and>
         (\<forall>k content. 1 \<le> k \<and> k \<le> 3 \<and>
            (\<forall>j<k - 1. transient_failure (env (requests_made w + j))) \<and>
            request_attempt (env (requests_made w + (k - 1))) = Inr content \<longrightarrow>
            fst (get_html_content env delay w) = Inr (Some content) \<and>
            requests_made (snd (get_html_content env delay w)) = requests_made w + k)"
proof -
  let ?r = "get_html_content env delay w"
  let ?a = "admitted_world w"
  have body: "?r = attempt_loop env delay 0 ?a" using ok by (rule get_html_content_body)
  have acc: "sleep_accepts ?a delay" using delay by simp
  have exhausted: "fst ?r = Inr None \<and> requests_made (snd ?r) = requests_made w + 3 \<and>
      slept (snd ?r) = slept w @ limiter_wait w @ replicate 2 delay \<and>
      (\<exists>evs e. log (snd ?r) = log w @ evs @ [FailedAfterAttempts 3 e])"
    if "\<forall>k<3. transient_failure (env (requests_made w + k))"
    using run_exhausted [of ?a delay 0 2 env] acc that
    by (simp add: body RETRY_TIMES_def numeral_3_eq_3)
  have success: "fst ?r = Inr (Some content) \<and> requests_made (snd ?r) = requests_made w + Suc k \<and>
      slept (snd ?r) = slept w @ limiter_wait w @ replicate k delay"
    if "k < 3" "\<forall>j<k. transient_failure (env (requests_made w + j))"
       "request_attempt (env (requests_made w + k)) = Inr content" for k content
    using run_to_success [of ?a delay 0 k env content] acc that
    by (simp add: body RETRY_TIMES_def)
  have third: "fst ?r = Inr (Some content) \<and> requests_made (snd ?r) = requests_made w + k"
    if "1 \<le> k \<and> k \<le> 3 \<and> (\<forall>j<k - 1. transient_failure (env (requests_made w + j))) \<and>
        request_attempt (env (requests_made w + (k - 1))) = Inr content" for k content
    using success [of "k - 1" content] that by auto
  have first: "\<exists>n. 1 \<le> n \<and> n \<le> 3 \<and> requests_made (snd ?r) = requests_made w + n \<and>
              slept (snd ?r) = slept w @ limiter_wait w @ replicate (n - 1) delay"
  proof (cases "\<forall>k<3. transient_failure (env (requests_made w + k))")
    case True
    from exhausted [OF True] show ?thesis
      by (intro exI [of _ 3]) simp
  next
    case False
    define k where "k = (LEAST k. \<not> transient_failure (env (requests_made w + k)))"
    from False obtain k0 where k0: "k0 < 3" "\<not> transient_failure (env (requests_made w + k0))"
      by blast
    have nk: "\<not> transient_failure (env (requests_made w + k))"
      unfolding k_def using k0(2) by (rule LeastI)
    have "k \<le> k0" unfolding k_def using k0(2) by (rule Least_le)
    with k0(1) have k3: "k < 3" by simp
    have below: "\<forall>j<k. transient_failure (env (requests_made w + j))"
      unfolding k_def using not_less_Least by blast
    from only_transient k3 nk obtain content where
      "request_attempt (env (requests_made w + k)) = Inr content" by blast
    from success [OF k3 below this] k3 show ?thesis
      by (intro exI [of _ "Suc k"]) simp
  qed
  from first exhausted third show ?thesis by blast
qed

theorem get_html_content_retries_transient_witness:
  "fst (get_html_content (\<lambda>n. if n < 2 then Raises Timeout else Response 200 ''ok'') 1
          fresh_world) = Inr (Some ''ok'') \<and>
   requests_made (snd (get_html_content (\<lambda>n. if n < 2 then Raises Timeout else Response 200 ''ok'') 1
          fresh_world)) = 3"
proof -
  let ?env = "\<lambda>n::nat. if n < 2 then Raises Timeout else Response 200 ''ok''"
  have h2: "\<forall>k<3. transient_failure (?env (requests_made fresh_world + k)) \<or>
                (\<exists>content. request_attempt (?env (requests_made fresh_world + k)) = Inr content)"
    by (simp add: transient_failure_def request_attempt_def raise_for_status_def)
  have h3: "1 \<le> (3::nat) \<and> (3::nat) \<le> 3 \<and>
            (\<forall>j<3 - 1. transient_failure (?env (requests_made fresh_world + j))) \<and>
            request_attempt (?env (requests_made fresh_world + (3 - 1))) = Inr ''ok''"
    by (simp add: transient_failure_def request_attempt_def raise_for_status_def fresh_world_def)
  note t = get_html_content_retries_transient [OF fresh_world_ok fresh_world_accepts_default h2]
  from t [THEN conjunct2, THEN conjunct2, rule_format, of 3 "''ok''", OF h3]
  show ?thesis by (simp add: fresh_world_def)
qed

text \<open>
  Against claim C1 as stated: with a delay of 1e10 seconds, or of -1 second, a transient
  failure followed by a response that would succeed does not give success after two
  attempts. The pause raises, the error escapes the handler it is raised in, and the call
  ends after one request.
\<close>

theorem retry_pause_can_raise:
  "fst (get_html_content (\<lambda>n. if n = 0 then Raises Timeout else Response 200 ''ok'')
          10000000000 fresh_world) = Inl (OverflowError (Some Timeout)) \<and>
   requests_made (snd (get_html_content (\<lambda>n. if n = 0 then Raises Timeout else Response 200 ''ok'')
          10000000000 fresh_world)) = 1 \<and>
   fst (get_html_content (\<lambda>n. if n = 0 then Raises Timeout else Response 200 ''ok'')
          (- 1) fresh_world) = Inl (ValueError ''sleep length must be non-negative'' (Some Timeout)) \<and>
   requests_made (snd (get_html_content (\<lambda>n. if n = 0 then Raises Timeout else Response 200 ''ok'')
          (- 1) fresh_world)) = 1"
proof -
  let ?env = "\<lambda>n::nat. if n = 0 then Raises Timeout else Response 200 ''ok''"
  let ?a = "admitted_world fresh_world"
  have e: "request_attempt (?env (requests_made ?a)) = Inl Timeout"
    by (simp add: request_attempt_def fresh_world_def)
  have big: "\<not> sleep_accepts ?a 10000000000" and neg: "\<not> sleep_accepts ?a (- 1)"
    by (simp_all add: sleep_accepts_def fresh_world_def)
  from loop_sleep_rejected [of 0 ?a 10000000000 ?env Timeout] e big
  have a: "fst (attempt_loop ?env 10000000000 0 ?a) = Inl (OverflowError (Some Timeout)) \<and>
           requests_made (snd (attempt_loop ?env 10000000000 0 ?a)) = 1"
    by (auto simp: RETRY_TIMES_def time_sleep_def fresh_world_def)
  from loop_sleep_rejected [of 0 ?a "- 1" ?env Timeout] e neg
  have b: "fst (attempt_loop ?env (- 1) 0 ?a) =
             Inl (ValueError ''sleep length must be non-negative'' (Some Timeout)) \<and>
           requests_made (snd (attempt_loop ?env (- 1) 0 ?a)) = 1"
    by (auto simp: RETRY_TIMES_def time_sleep_def fresh_world_def)
  from a b show ?thesis
    by (simp add: get_html_content_body [OF fresh_world_ok])
qed

lemma attempt_loop_never_raises:
  "sleep_accepts w delay \<Longrightarrow> \<exists>res. fst (attempt_loop env delay a w) = Inr res"
proof (induction "RETRY_TIMES - a" arbitrary: a w)
  case 0
  then show ?case by (simp add: loop_exit)
next
  case (Suc n)
  then have a: "a < RETRY_TIMES" by simp
  show ?case
  proof (cases "request_attempt (env (requests_made w))")
    case (Inr content)
    with a show ?thesis by (simp add: loop_success)
  next
    case (Inl e)
    show ?thesis
    proof (cases "is_HTTPError e \<or> \<not> is_RequestException e")
      case True
      from loop_terminal [of a env w e delay] a Inl True show ?thesis by simp
    next
      case False
      then have e: "is_RequestException e" "\<not> is_HTTPError e" by auto
      show ?thesis
      proof (cases "a < RETRY_TIMES - 1")
        case True
        have n: "n = RETRY_TIMES - Suc a" using Suc.hyps(2) by simp
        have acc: "sleep_accepts (after_failed_attempt (Suc a) delay e w) delay"
          using Suc.prems by (simp add: sleep_accepts_def)
        from Suc.hyps(1) [OF n acc]
        show ?thesis using loop_retry [of a w delay env e] True Suc.prems Inl e by simp
      next
        case False
        with a have "a = RETRY_TIMES - 1" by simp
        then show ?thesis using loop_exhausted [of a env w e delay] Inl e by simp
      qed
    qed
  qed
qed

lemma user_records_append: "user_records (xs @ ys) = user_records xs @ user_records ys"
  by (induction xs rule: user_records.induct) simp_all

lemma attempt_loop_log:
  "\<exists>evs. log (snd (attempt_loop env delay a w)) = log w @ evs \<and> user_records evs = []"
proof (induction "RETRY_TIMES - a" arbitrary: a w)
  case 0
  then show ?case by (simp add: loop_exit)
next
  case (Suc n)
  then have a: "a < RETRY_TIMES" by simp
  show ?case
  proof (cases "request_attempt (env (requests_made w))")
    case (Inr content)
    with a show ?thesis by (simp add: loop_success)
  next
    case (Inl e)
    show ?thesis
    proof (cases "is_HTTPError e \<or> \<not> is_RequestException e")
      case True
      from loop_terminal [of a env w e delay] a Inl True show ?thesis by simp
    next
      case False
      then have e: "is_RequestException e" "\<not> is_HTTPError e" by auto
      show ?thesis
      proof (cases "a < RETRY_TIMES - 1")
        case False
        with a have "a = RETRY_TIMES - 1" by simp
        then show ?thesis using loop_exhausted [of a env w e delay] Inl e by simp
      next
        case True
        show ?thesis
        proof (cases "sleep_accepts w delay")
          case rejected: False
          from loop_sleep_rejected [of a w delay env e] True rejected Inl e
          show ?thesis by auto
        next
          case accepted: True
          let ?w = "after_failed_attempt (Suc a) delay e w"
          have "n = RETRY_TIMES - Suc a" using Suc.hyps(2) by simp
          from Suc.hyps(1) [OF this, of ?w] obtain evs where
            evs: "log (snd (attempt_loop env delay (Suc a) ?w)) = log ?w @ evs" "user_records evs = []"
            by blast
          have step: "attempt_loop env delay a w = attempt_loop env delay (Suc a) ?w"
            using loop_retry [of a w delay env e] True accepted Inl e by blast
          have "log (snd (attempt_loop env delay a w)) = log w @ (AttemptFailedRetrying (Suc a) delay e # evs)"
            using evs(1) step by simp
          moreover have "user_records (AttemptFailedRetrying (Suc a) delay e # evs) = []"
            using evs(2) by simp
          ultimately show ?thesis by blast
        qed
      qed
    qed
  qed
qed

text \<open>A call either runs the body once, or ends in the limiter's pause being refused.\<close>

lemma get_html_content_cases:
  "get_html_content env delay w = attempt_loop env delay 0 (admitted_world w) \<or>
   (\<exists>err. get_html_content env delay w = (Inl err, w\<lparr>num_calls := num_calls w + 1\<rparr>))"
proof (cases "0 < period_remaining w \<and> clamped_calls \<le> num_calls w")
  case False
  then have "period_remaining w \<le> 0 \<or> num_calls w < clamped_calls" by auto
  then show ?thesis by (simp add: get_html_content_passes)
next
  case True
  show ?thesis
  proof (cases "sleep_accepts w (period_remaining w)")
    case accepted: True
    with True show ?thesis by (simp add: get_html_content_waits)
  next
    case False
    let ?r = "period_remaining w"
    let ?w1 = "w\<lparr>num_calls := num_calls w + 1\<rparr>"
    have lim: "limits (attempt_loop env delay 0) w = (Inl (RateLimitException ?r), ?w1)"
      using True by (simp add: limits_def limits_enter_raise)
    from False have "\<not> sleep_accepts ?w1 ?r" by (simp add: sleep_accepts_def)
    from time_sleep_rejected [OF this, of "RateLimitException ?r"] obtain err where
      err: "time_sleep ?r (RateLimitException ?r) ?w1 = (Inl err, ?w1)" by blast
    have "get_html_content env delay w = (Inl err, ?w1)"
      by (subst get_html_content.simps) (use err in \<open>simp add: lim\<close>)
    then show ?thesis by blast
  qed
qed

lemma get_html_content_log:
  "\<exists>evs. log (snd (get_html_content env delay w)) = log w @ evs \<and> user_records evs = []"
  using get_html_content_cases [of env delay w] attempt_loop_log [of env delay 0 "admitted_world w"]
  by auto

lemma http_status_requestD:
  "400 \<le> status_code \<Longrightarrow> status_code < 600 \<Longrightarrow>
   request_attempt (Response status_code content) = Inl (HTTPError status_code)"
  by (simp add: request_attempt_def raise_for_status_def)

text \<open>
  Claim C2, as amended. When the first attempt comes back with a status code from 400 to
  599, \<^verbatim>\<open>get_html_content\<close> returns at once, after exactly one request: it pauses for no
  retry delay (the only pause there can be is the limiter's, before the request), whatever
  the delay and whatever later attempts would have brought. What it returns is the bare
  \<^verbatim>\<open>None\<close>; the status code goes to the log only.
\<close>

theorem http_status_error_is_not_retried:
  assumes "world_ok w"
    and "env (requests_made w) = Response status_code content"
    and "400 \<le> status_code" and "status_code < 600"
  shows "fst (get_html_content env delay w) = Inr None \<and>
         requests_made (snd (get_html_content env delay w)) = requests_made w + 1 \<and>
         slept (snd (get_html_content env delay w)) = slept w @ limiter_wait w \<and>
         log (snd (get_html_content env delay w)) =
           log w @ [HttpErrorEncountered (HTTPError status_code)]"
proof -
  let ?a = "admitted_world w"
  have "request_attempt (env (requests_made ?a)) = Inl (HTTPError status_code)"
    using assms by (simp add: http_status_requestD)
  then have "attempt_loop env delay 0 ?a =
     (Inr None, logging (HttpErrorEncountered (HTTPError status_code)) (issue_request ?a))"
    using loop_terminal [of 0 env ?a "HTTPError status_code" delay]
    by (simp add: RETRY_TIMES_def)
  then show ?thesis by (simp add: get_html_content_body [OF assms(1)])
qed

text \<open>
  The example is the eleventh call within a period that started five seconds ago: the
  limiter pauses for the remaining 55 seconds, then the one request is made.
\<close>

theorem http_status_error_is_not_retried_witness:
  "fst (get_html_content (\<lambda>n. Response 404 ''Not Found'') 1
          (fresh_world\<lparr>clock := 5, num_calls := 10\<rparr>)) = Inr None \<and>
   requests_made (snd (get_html_content (\<lambda>n. Response 404 ''Not Found'') 1
          (fresh_world\<lparr>clock := 5, num_calls := 10\<rparr>))) = 1 \<and>
   slept (snd (get_html_content (\<lambda>n. Response 404 ''Not Found'') 1
          (fresh_world\<lparr>clock := 5, num_calls := 10\<rparr>))) = [55] \<and>
   log (snd (get_html_content (\<lambda>n. Response 404 ''Not Found'') 1
          (fresh_world\<lparr>clock := 5, num_calls := 10\<rparr>))) =
     [HttpErrorEncountered (HTTPError 404)]"
proof -
  let ?w = "fresh_world\<lparr>clock := 5, num_calls := 10\<rparr>"
  have h0: "world_ok ?w" by (simp add: world_ok_def fresh_world_def PERIOD_def)
  have h1: "(\<lambda>n. Response 404 ''Not Found'') (requests_made ?w) = Response 404 ''Not Found''"
    by simp
  have h2: "(400::nat) \<le> 404" and h3: "(404::nat) < 600" by simp_all
  have wait: "limiter_wait ?w = [55]"
    by (simp add: limiter_wait_def period_remaining_def fresh_world_def PERIOD_def
          clamped_calls_def CALLS_def)
  from http_status_error_is_not_retried [of ?w "\<lambda>n. Response 404 ''Not Found''" 404 "''Not Found''" 1,
      OF h0 h1 h2 h3]
  show ?thesis by (simp add: wait) (simp add: fresh_world_def)
qed

text \<open>
  Against claim C2 as stated: the value returned for status 404, for status 500 and for
  an exhausted retry budget is the same \<^verbatim>\<open>None\<close>, so it carries neither a failure kind nor
  a status code.
\<close>

theorem http_status_outcome_is_bare_None:
  "fst (get_html_content (\<lambda>n. Response 404 []) 1 fresh_world) = Inr None \<and>
   fst (get_html_content (\<lambda>n. Response 500 []) 1 fresh_world) = Inr None \<and>
   fst (get_html_content (\<lambda>n. Raises Timeout) 1 fresh_world) = Inr None"
proof -
  let ?a = "admitted_world fresh_world"
  have acc: "sleep_accepts ?a 1" using fresh_world_accepts_default by simp
  have t: "terminal_failure (Response 404 [])" "terminal_failure (Response 500 [])"
    by (simp_all add: terminal_failure_def request_attempt_def raise_for_status_def)
  have a: "fst (attempt_loop (\<lambda>n. Response 404 []) 1 0 ?a) = Inr None"
    using run_to_terminal [of ?a 1 0 0 "\<lambda>n. Response 404 []"] t acc
    by (simp add: RETRY_TIMES_def)
  have b: "fst (attempt_loop (\<lambda>n. Response 500 []) 1 0 ?a) = Inr None"
    using run_to_terminal [of ?a 1 0 0 "\<lambda>n. Response 500 []"] t acc
    by (simp add: RETRY_TIMES_def)
  have "transient_failure (Raises Timeout)"
    by (simp add: transient_failure_def request_attempt_def)
  then have c: "fst (attempt_loop (\<lambda>n. Raises Timeout) 1 0 ?a) = Inr None"
    using run_exhausted [of ?a 1 0 2 "\<lambda>n. Raises Timeout"] acc
    by (simp add: RETRY_TIMES_def)
  from a b c show ?thesis by (simp add: get_html_content_body [OF fresh_world_ok])
qed

text \<open>
  Claim C9, as amended. In a world a run can be in: a failure of the first attempt that is
  not transient (an HTTP status error, a rate-limit signal, any other unexpected
  exception) returns \<^verbatim>\<open>None\<close> whatever the delay. With a delay that \<^verbatim>\<open>time.sleep\<close> accepts,
  the call never raises, and every failure mode returns the same \<^verbatim>\<open>None\<close>: such a failure
  after transient ones, and three transient failures in a row. With a delay that
  \<^verbatim>\<open>time.sleep\<close> refuses, a transient failure of the first attempt makes the call raise.
\<close>

theorem get_html_content_failures_return_None:
  assumes "world_ok w"
  shows "(terminal_failure (env (requests_made w)) \<longrightarrow>
            fst (get_html_content env delay w) = Inr None) \<and>
         (sleep_accepts w delay \<longrightarrow>
            (\<exists>res. fst (get_html_content env delay w) = Inr res) \<and>
            (\<forall>k<3. (\<forall>j<k. transient_failure (env (requests_made w + j))) \<and>
                     terminal_failure (env (requests_made w + k)) \<longrightarrow>
                     fst (get_html_content env delay w) = Inr None) \<and>
            ((\<forall>k<3. transient_failure (env (requests_made w + k))) \<longrightarrow>
               fst (get_html_content env delay w) = Inr None)) \<and>
         (\<not> sleep_accepts w delay \<and> transient_failure (env (requests_made w)) \<longrightarrow>
            (\<exists>err. fst (get_html_content env delay w) = Inl err))"
proof -
  let ?a = "admitted_world w"
  have body: "get_html_content env delay w = attempt_loop env delay 0 ?a"
    using assms by (rule get_html_content_body)
  have first: "fst (get_html_content env delay w) = Inr None"
    if "terminal_failure (env (requests_made w))"
  proof -
    from that obtain e where "request_attempt (env (requests_made ?a)) = Inl e"
      "is_HTTPError e \<or> \<not> is_RequestException e"
      using terminal_failureD by fastforce
    from loop_terminal [of 0 env ?a e delay] this show ?thesis
      by (simp add: body RETRY_TIMES_def)
  qed
  have accepted: "(\<exists>res. fst (get_html_content env delay w) = Inr res) \<and>
            (\<forall>k<3. (\<forall>j<k. transient_failure (env (requests_made w + j))) \<and>
                     terminal_failure (env (requests_made w + k)) \<longrightarrow>
                     fst (get_html_content env delay w) = Inr None) \<and>
            ((\<forall>k<3. transient_failure (env (requests_made w + k))) \<longrightarrow>
               fst (get_html_content env delay w) = Inr None)"
    if acc: "sleep_accepts w delay"
  proof (intro conjI allI impI)
    have acc': "sleep_accepts ?a delay" using acc by simp
    show "\<exists>res. fst (get_html_content env delay w) = Inr res"
      using attempt_loop_never_raises [OF acc'] by (simp add: body)
    {
      fix k
      assume "k < 3"
        and "(\<forall>j<k. transient_failure (env (requests_made w + j))) \<and>
             terminal_failure (env (requests_made w + k))"
      then show "fst (get_html_content env delay w) = Inr None"
        using run_to_terminal [of ?a delay 0 k env] acc'
        by (simp add: body RETRY_TIMES_def)
    }
    assume "\<forall>k<3. transient_failure (env (requests_made w + k))"
    then show "fst (get_html_content env delay w) = Inr None"
      using run_exhausted [of ?a delay 0 2 env] acc'
      by (simp add: body RETRY_TIMES_def numeral_3_eq_3)
  qed
  have refused: "\<exists>err. fst (get_html_content env delay w) = Inl err"
    if "\<not> sleep_accepts w delay \<and> transient_failure (env (requests_made w))"
  proof -
    from that have rej: "\<not> sleep_accepts ?a delay" by simp
    from that obtain e where "request_attempt (env (requests_made ?a)) = Inl e"
      "is_RequestException e" "\<not> is_HTTPError e"
      using transient_failureD by fastforce
    from loop_sleep_rejected [of 0 ?a delay env e] rej this show ?thesis
      by (auto simp: body RETRY_TIMES_def)
  qed
  from first accepted refused show ?thesis by blast
qed

theorem get_html_content_failures_return_None_witness:
  "fst (get_html_content (\<lambda>n. if n = 0 then Raises ConnectionError else Raises (RateLimitException 0))
          1 fresh_world) = Inr None"
proof -
  let ?env = "\<lambda>n::nat. if n = 0 then Raises ConnectionError else Raises (RateLimitException 0)"
  have h1: "(1::nat) < 3" by simp
  have h2: "(\<forall>j<1. transient_failure (?env (requests_made fresh_world + j))) \<and>
            terminal_failure (?env (requests_made fresh_world + 1))"
    by (simp add: transient_failure_def terminal_failure_def request_attempt_def fresh_world_def)
  note t = get_html_content_failures_return_None [OF fresh_world_ok, of ?env 1]
  from t [THEN conjunct2, THEN conjunct1, rule_format, OF fresh_world_accepts_default,
          THEN conjunct2, THEN conjunct1, rule_format, of 1, OF h1 h2]
  show ?thesis .
qed

text \<open>
  Against claim C9 as stated: when every attempt fails with a connection error and the
  delay is one that \<^verbatim>\<open>time.sleep\<close> refuses (-1 second, or 1e10 seconds), the call does not
  return \<^verbatim>\<open>None\<close>: it raises the error of \<^verbatim>\<open>time.sleep\<close>.
\<close>

theorem get_html_content_can_raise:
  "fst (get_html_content (\<lambda>n. Raises ConnectionError) (- 1) fresh_world) =
     Inl (ValueError ''sleep length must be non-negative'' (Some ConnectionError)) \<and>
   fst (get_html_content (\<lambda>n. Raises ConnectionError) 10000000000 fresh_world) =
     Inl (OverflowError (Some ConnectionError))"
proof -
  let ?env = "\<lambda>n::nat. Raises ConnectionError"
  let ?a = "admitted_world fresh_world"
  have e: "request_attempt (?env (requests_made ?a)) = Inl ConnectionError"
    by (simp add: request_attempt_def)
  have big: "\<not> sleep_accepts ?a 10000000000" and neg: "\<not> sleep_accepts ?a (- 1)"
    by (simp_all add: sleep_accepts_def fresh_world_def)
  from loop_sleep_rejected [of 0 ?a 10000000000 ?env ConnectionError] e big
  have a: "fst (attempt_loop ?env 10000000000 0 ?a) = Inl (OverflowError (Some ConnectionError))"
    by (auto simp: RETRY_TIMES_def time_sleep_def fresh_world_def)
  from loop_sleep_rejected [of 0 ?a "- 1" ?env ConnectionError] e neg
  have b: "fst (attempt_loop ?env (- 1) 0 ?a) =
             Inl (ValueError ''sleep length must be non-negative'' (Some ConnectionError))"
    by (auto simp: RETRY_TIMES_def time_sleep_def fresh_world_def)
  from a b show ?thesis
    by (simp add: get_html_content_body [OF fresh_world_ok])
qed

section \<open>The parser\<close>

lemma parse_success:
  "BeautifulSoup lib html_content = Inr sp \<Longrightarrow> soup_body sp = Some b \<Longrightarrow>
   json_loads lib (tag_text b) = Inr doc \<Longrightarrow>
   parse_html_to_json lib html_content w = (Inr doc, w)"
  by (simp add: parse_html_to_json_def)

lemma parse_not_json:
  "BeautifulSoup lib html_content = Inr sp \<Longrightarrow> soup_body sp = Some b \<Longrightarrow>
   json_loads lib (tag_text b) = Inl JSONDecodeError \<Longrightarrow>
   parse_html_to_json lib html_content w = (Inl JSONDecodeError, logging JsonParsingError w)"
  by (simp add: parse_html_to_json_def)

lemma parse_no_body:
  "BeautifulSoup lib html_content = Inr sp \<Longrightarrow> soup_body sp = None \<Longrightarrow>
   parse_html_to_json lib html_content w =
     (Inl AttributeError, logging (UnexpectedParseError AttributeError) w)"
  by (simp add: parse_html_to_json_def)

lemma parse_rejected_markup:
  "BeautifulSoup lib html_content = Inl e \<Longrightarrow> \<not> is_JSONDecodeError e \<Longrightarrow>
   parse_html_to_json lib html_content w = (Inl e, logging (UnexpectedParseError e) w)"
  by (simp add: parse_html_to_json_def)

lemma sample_soup_example:
  \<open>sample_BeautifulSoup ''<html><body>{"data":[]}</body></html>'' =
     Inr \<lparr>soup_body = Some \<lparr>tag_text = ''{"data":[]}''\<rparr>\<rparr>\<close>
  by (simp add: sample_BeautifulSoup_def)

lemma sample_soup_not_json:
  \<open>sample_BeautifulSoup ''<html><body>not json</body></html>'' =
     Inr \<lparr>soup_body = Some \<lparr>tag_text = ''not json''\<rparr>\<rparr>\<close>
  by (simp add: sample_BeautifulSoup_def)

lemma sample_soup_null:
  \<open>sample_BeautifulSoup ''<html><body>null</body></html>'' =
     Inr \<lparr>soup_body = Some \<lparr>tag_text = ''null''\<rparr>\<rparr>\<close>
  by (simp add: sample_BeautifulSoup_def)

lemma sample_soup_empty:
  "sample_BeautifulSoup [] = Inr \<lparr>soup_body = None\<rparr>"
  by (simp add: sample_BeautifulSoup_def)

lemma sample_loads_example:
  \<open>sample_json_loads ''{"data":[]}'' = Inr (JDict [(''data'', JList [])])\<close>
  \<open>sample_json_loads ''not json'' = Inl JSONDecodeError\<close>
  \<open>sample_json_loads ''null'' = Inr JNull\<close>
  \<open>sample_json_loads ''NaN'' = Inr (JFloat NaN)\<close>
  by (simp_all add: sample_json_loads_def)

lemma sample_soup_nan:
  \<open>sample_BeautifulSoup ''<html><body>NaN</body></html>'' =
     Inr \<lparr>soup_body = Some \<lparr>tag_text = ''NaN''\<rparr>\<rparr>\<close>
  by (simp add: sample_BeautifulSoup_def)

lemma parse_loads_failed:
  "BeautifulSoup lib html_content = Inr sp \<Longrightarrow> soup_body sp = Some b \<Longrightarrow>
   json_loads lib (tag_text b) = Inl e \<Longrightarrow>
   parse_html_to_json lib html_content w =
     (Inl e, logging (if is_JSONDecodeError e then JsonParsingError else UnexpectedParseError e) w)"
  by (simp add: parse_html_to_json_def)

lemma parse_soup_failed:
  "BeautifulSoup lib html_content = Inl e \<Longrightarrow>
   parse_html_to_json lib html_content w =
     (Inl e, logging (if is_JSONDecodeError e then JsonParsingError else UnexpectedParseError e) w)"
  by (simp add: parse_html_to_json_def)

lemma parse_success_only:
  "fst (parse_html_to_json lib html_content w) = Inr doc \<Longrightarrow>
   \<exists>sp b. BeautifulSoup lib html_content = Inr sp \<and> soup_body sp = Some b \<and>
          json_loads lib (tag_text b) = Inr doc"
  by (auto simp: parse_html_to_json_def split: sum.splits option.splits if_splits)

text \<open>
  Claim C4, as amended. The parser returns a document exactly when \<^verbatim>\<open>BeautifulSoup\<close> finds a
  body element and \<^verbatim>\<open>json.loads\<close> decodes its text, and then it returns that document
  unchanged and logs nothing; so, given what the two libraries do on the example body, it
  returns exactly the document with an empty \<open>data\<close> list. When \<^verbatim>\<open>json.loads\<close> rejects the
  body text the parser fails with the exception of \<^verbatim>\<open>json.loads\<close>, \<open>JSONDecodeError\<close> (the
  not-JSON error), logged as a JSON parsing error. When no body element is found the
  parser fails with \<open>AttributeError\<close> through its catch-all handler (the malformed error),
  and when \<^verbatim>\<open>BeautifulSoup\<close> itself raises, with that exception.
\<close>

theorem parse_html_to_json_outcomes:
  \<open>(\<forall>sp b doc.
       BeautifulSoup lib html_content = Inr sp \<and> soup_body sp = Some b \<and>
       json_loads lib (tag_text b) = Inr doc \<longrightarrow>
       parse_html_to_json lib html_content w = (Inr doc, w)) \<and>
    (\<forall>doc.
       fst (parse_html_to_json lib html_content w) = Inr doc \<longrightarrow>
       (\<exists>sp b. BeautifulSoup lib html_content = Inr sp \<and> soup_body sp = Some b \<and>
              json_loads lib (tag_text b) = Inr doc)) \<and>
    (\<forall>sp b e.
       BeautifulSoup lib html_content = Inr sp \<and> soup_body sp = Some b \<and>
       json_loads lib (tag_text b) = Inl e \<longrightarrow>
       parse_html_to_json lib html_content w =
         (Inl e, logging (if is_JSONDecodeError e then JsonParsingError
                          else UnexpectedParseError e) w)) \<and>
    (\<forall>sp.
       BeautifulSoup lib html_content = Inr sp \<and> soup_body sp = None \<longrightarrow>
       parse_html_to_json lib html_content w =
         (Inl AttributeError, logging (UnexpectedParseError AttributeError) w)) \<and>
    (\<forall>e.
       BeautifulSoup lib html_content = Inl e \<longrightarrow>
       parse_html_to_json lib html_content w =
         (Inl e, logging (if is_JSONDecodeError e then JsonParsingError
                          else UnexpectedParseError e) w)) \<and>
    (BeautifulSoup lib ''<html><body>{"data":[]}</body></html>'' =
       Inr \<lparr>soup_body = Some \<lparr>tag_text = ''{"data":[]}''\<rparr>\<rparr> \<and>
     json_loads lib ''{"data":[]}'' = Inr (JDict [(''data'', JList [])]) \<longrightarrow>
     parse_html_to_json lib ''<html><body>{"data":[]}</body></html>'' w =
       (Inr (JDict [(''data'', JList [])]), w))\<close>
proof (intro conjI allI impI)
  fix doc
  assume "fst (parse_html_to_json lib html_content w) = Inr doc"
  then show "\<exists>sp b. BeautifulSoup lib html_content = Inr sp \<and> soup_body sp = Some b \<and>
              json_loads lib (tag_text b) = Inr doc"
    by (rule parse_success_only)
qed (auto simp: parse_success parse_loads_failed parse_no_body parse_soup_failed)

theorem parse_html_to_json_outcomes_witness:
  \<open>parse_html_to_json sample_library ''<html><body>{"data":[]}</body></html>'' fresh_world =
     (Inr (JDict [(''data'', JList [])]), fresh_world) \<and>
   parse_html_to_json sample_library ''<html><body>not json</body></html>'' fresh_world =
     (Inl JSONDecodeError, logging JsonParsingError fresh_world) \<and>
   parse_html_to_json sample_library [] fresh_world =
     (Inl AttributeError, logging (UnexpectedParseError AttributeError) fresh_world)\<close>
proof -
  have h1: \<open>BeautifulSoup sample_library ''<html><body>{"data":[]}</body></html>'' =
       Inr \<lparr>soup_body = Some \<lparr>tag_text = ''{"data":[]}''\<rparr>\<rparr> \<and>
     json_loads sample_library ''{"data":[]}'' = Inr (JDict [(''data'', JList [])])\<close>
    by (simp add: sample_library_def sample_soup_example sample_loads_example)
  have h2: \<open>BeautifulSoup sample_library ''<html><body>not json</body></html>'' =
       Inr \<lparr>soup_body = Some \<lparr>tag_text = ''not json''\<rparr>\<rparr> \<and>
     soup_body \<lparr>soup_body = Some \<lparr>tag_text = ''not json''\<rparr>\<rparr> = Some \<lparr>tag_text = ''not json''\<rparr> \<and>
     json_loads sample_library (tag_text \<lparr>tag_text = ''not json''\<rparr>) = Inl JSONDecodeError\<close>
    by (simp add: sample_library_def sample_soup_not_json sample_loads_example)
  have h3: "BeautifulSoup sample_library [] = Inr \<lparr>soup_body = None\<rparr> \<and>
     soup_body \<lparr>soup_body = None\<rparr> = None"
    by (simp add: sample_library_def sample_soup_empty)
  note a = parse_html_to_json_outcomes
             [of sample_library \<open>''<html><body>{"data":[]}</body></html>''\<close> fresh_world]
  note b = parse_html_to_json_outcomes
             [of sample_library \<open>''<html><body>not json</body></html>''\<close> fresh_world]
  note c = parse_html_to_json_outcomes [of sample_library "[]" fresh_world]
  from a [THEN conjunct2, THEN conjunct2, THEN conjunct2, THEN conjunct2, THEN conjunct2,
          rule_format, OF h1]
       b [THEN conjunct2, THEN conjunct2, THEN conjunct1, rule_format, OF h2]
       c [THEN conjunct2, THEN conjunct2, THEN conjunct2, THEN conjunct1, rule_format, OF h3]
  show ?thesis by simp
qed

text \<open>
  Against claim C4 as stated: the text \<^verbatim>\<open>NaN\<close> is not valid JSON (it does not even start
  like a JSON value), yet \<^verbatim>\<open>json.loads\<close> decodes it, so for the body with this inner text
  the parser does not fail with the not-JSON error: it returns the float.
\<close>

theorem parse_accepts_text_that_is_not_json:
  \<open>\<not> starts_like_json ''NaN'' \<and>
   parse_html_to_json sample_library ''<html><body>NaN</body></html>'' fresh_world =
     (Inr (JFloat NaN), fresh_world)\<close>
proof -
  have a: \<open>BeautifulSoup sample_library ''<html><body>NaN</body></html>'' =
             Inr \<lparr>soup_body = Some \<lparr>tag_text = ''NaN''\<rparr>\<rparr>\<close>
    by (simp add: sample_library_def sample_soup_nan)
  have b: "soup_body \<lparr>soup_body = Some \<lparr>tag_text = ''NaN''\<rparr>\<rparr> = Some \<lparr>tag_text = ''NaN''\<rparr>"
    by simp
  have c: "json_loads sample_library (tag_text \<lparr>tag_text = ''NaN''\<rparr>) = Inr (JFloat NaN)"
    by (simp add: sample_library_def sample_loads_example)
  have "\<not> starts_like_json ''NaN''" by (simp add: starts_like_json_def)
  with parse_success [OF a b c] show ?thesis by simp
qed

section \<open>The extractor\<close>

lemma shape_check_iff: "(invalid_or_missing_data doc = Inr False) = top_level_ok doc"
proof (cases doc)
  case (JDict kvs)
  then show ?thesis
    by (cases "map_of kvs ''data''"; cases kvs)
       (auto simp: invalid_or_missing_data_def top_level_ok_def bind_exn_def py_in_def
          py_getitem_def split: json.splits option.splits)
next
  case (JFloat f)
  then show ?thesis
    by (cases f) (auto simp: invalid_or_missing_data_def top_level_ok_def bind_exn_def py_in_def)
qed (auto simp: invalid_or_missing_data_def top_level_ok_def bind_exn_def py_in_def
       py_getitem_def)

lemma shape_check_object_or_falsy:
  "is_object doc \<or> \<not> truthy doc \<Longrightarrow> invalid_or_missing_data doc = Inr (\<not> top_level_ok doc)"
proof (cases doc)
  case (JDict kvs)
  then show ?thesis
    by (cases "map_of kvs ''data''"; cases kvs)
       (auto simp: invalid_or_missing_data_def top_level_ok_def bind_exn_def py_in_def
          py_getitem_def split: json.splits option.splits)
next
  case (JFloat f)
  assume "is_object doc \<or> \<not> truthy doc"
  with JFloat show ?thesis
    by (cases f) (auto simp: invalid_or_missing_data_def top_level_ok_def)
qed (auto simp: invalid_or_missing_data_def top_level_ok_def)

lemma shape_check_cases:
  "invalid_or_missing_data doc = Inr False \<or> invalid_or_missing_data doc = Inr True \<or>
   invalid_or_missing_data doc = Inl TypeError"
proof (cases doc)
  case (JDict kvs)
  then show ?thesis
    by (cases "map_of kvs ''data''"; cases kvs)
       (auto simp: invalid_or_missing_data_def bind_exn_def py_in_def
          py_getitem_def split: json.splits option.splits)
next
  case (JFloat f)
  then show ?thesis
    by (cases f) (auto simp: invalid_or_missing_data_def bind_exn_def py_in_def)
qed (auto simp: invalid_or_missing_data_def bind_exn_def py_in_def py_getitem_def)

lemma extract_rejects_shape:
  \<open>invalid_or_missing_data doc = Inr True \<Longrightarrow>
   extract_user_info doc w =
     (Inl (ValueError ''Data extraction error: {ve}''
            (Some (ValueError ''Invalid or missing "data" field in JSON data.'' None))), w)\<close>
  by (simp add: extract_user_info_def)

lemma extract_type_error:
  "invalid_or_missing_data doc = Inl TypeError \<Longrightarrow>
   extract_user_info doc w =
     (Inl (ValueError ''Unexpected error during data extraction: {e}'' (Some TypeError)), w)"
  by (simp add: extract_user_info_def)

lemma top_level_okD:
  "top_level_ok doc \<Longrightarrow> \<exists>kvs items. doc = JDict kvs \<and> map_of kvs ''data'' = Some (JList items)"
proof -
  assume ok: "top_level_ok doc"
  then obtain kvs where doc: "doc = JDict kvs"
    by (cases doc) (simp_all add: top_level_ok_def)
  with ok obtain v where v: "map_of kvs ''data'' = Some v"
    by (cases "map_of kvs ''data''") (simp_all add: top_level_ok_def)
  with ok doc obtain items where "v = JList items"
    by (cases v) (simp_all add: top_level_ok_def)
  with doc v show ?thesis by blast
qed

lemma build_record_object:
  "build_extracted_user_info (JDict ukvs) =
     Inr \<lparr>user_id = (case map_of ukvs ''id'' of Some v \<Rightarrow> v | None \<Rightarrow> JNull),
          username = (case map_of ukvs ''username'' of Some v \<Rightarrow> v | None \<Rightarrow> JNull),
          bio = (case map_of ukvs ''bio'' of Some v \<Rightarrow> v | None \<Rightarrow> JNull),
          social = \<lparr>instagram = (case map_of ukvs ''instagram'' of Some v \<Rightarrow> v | None \<Rightarrow> JNull),
                    twitter = (case map_of ukvs ''twitter'' of Some v \<Rightarrow> v | None \<Rightarrow> JNull),
                    youtube = (case map_of ukvs ''youtube'' of Some v \<Rightarrow> v | None \<Rightarrow> JNull),
                    discord = (case map_of ukvs ''discord'' of Some v \<Rightarrow> v | None \<Rightarrow> JNull),
                    tiktok = (case map_of ukvs ''tiktok'' of Some v \<Rightarrow> v | None \<Rightarrow> JNull),
                    facebook = (case map_of ukvs ''facebook'' of Some v \<Rightarrow> v | None \<Rightarrow> JNull)\<rparr>,
          profilepic = (case map_of ukvs ''profilepic'' of Some v \<Rightarrow> v | None \<Rightarrow> JNull)\<rparr>"
  by (simp add: build_extracted_user_info_def bind_exn_def dict_get_def)

lemma build_record_not_object:
  "\<not> is_object u \<Longrightarrow> build_extracted_user_info u = Inl AttributeError"
  by (cases u) (simp_all add: build_extracted_user_info_def bind_exn_def dict_get_def)

lemma optional_field_no_channel:
  "map_of kvs ''channel'' = None \<Longrightarrow> optional_field name (JDict kvs) = JNull"
  by (simp add: optional_field_def)

lemma optional_field_no_user:
  "map_of kvs ''channel'' = Some (JDict ckvs) \<Longrightarrow> map_of ckvs ''user'' = None \<Longrightarrow>
   optional_field name (JDict kvs) = JNull"
  by (simp add: optional_field_def)

lemma optional_field_user:
  "map_of kvs ''channel'' = Some (JDict ckvs) \<Longrightarrow> map_of ckvs ''user'' = Some (JDict ukvs) \<Longrightarrow>
   optional_field name (JDict kvs) = (case map_of ukvs name of Some v \<Rightarrow> v | None \<Rightarrow> JNull)"
  by (simp add: optional_field_def split: option.splits)

lemma extract_item_well_formed:
  assumes "well_formed_item item"
  shows "\<exists>ch. extract_item item w =
           (Inr (), w\<lparr>log := log w @ [ChannelInfo ch, UserInfo (spec_user_record item)]\<rparr>)"
proof -
  from assms obtain kvs where item: "item = JDict kvs"
    by (auto simp: well_formed_item_def split: json.splits)
  show ?thesis
  proof (cases "map_of kvs ''channel''")
    case None
    then show ?thesis
      by (intro exI [of _ "JDict []"])
         (simp add: item extract_item_def dict_get_def build_record_object logging_def
            spec_user_record_def optional_field_no_channel)
  next
    case (Some ch)
    with assms item obtain ckvs where ch: "ch = JDict ckvs"
      by (auto simp: well_formed_item_def split: json.splits)
    show ?thesis
    proof (cases "map_of ckvs ''user''")
      case None
      with Some ch show ?thesis
        by (intro exI [of _ ch])
           (simp add: item extract_item_def dict_get_def build_record_object logging_def
              spec_user_record_def optional_field_no_user)
    next
      case u: (Some u)
      with assms item Some ch obtain ukvs where "u = JDict ukvs"
        by (cases u) (auto simp: well_formed_item_def)
      with Some ch u show ?thesis
        by (intro exI [of _ ch])
           (simp add: item extract_item_def dict_get_def build_record_object logging_def
              spec_user_record_def optional_field_user)
    qed
  qed
qed

lemma extract_item_malformed:
  assumes "\<not> well_formed_item item"
  shows "extract_item item w = (Inl AttributeError, w)"
proof (cases item)
  case (JDict kvs)
  show ?thesis
  proof (cases "map_of kvs ''channel''")
    case None
    with assms JDict show ?thesis by (simp add: well_formed_item_def)
  next
    case (Some ch)
    show ?thesis
    proof (cases ch)
      case ch: (JDict ckvs)
      show ?thesis
      proof (cases "map_of ckvs ''user''")
        case None
        with assms JDict Some ch show ?thesis by (simp add: well_formed_item_def)
      next
        case u: (Some u)
        with assms JDict Some ch have "\<not> is_object u" by (simp add: well_formed_item_def)
        with JDict Some ch u show ?thesis
          by (simp add: extract_item_def dict_get_def build_record_not_object)
      qed
    qed (use JDict Some in \<open>simp_all add: extract_item_def dict_get_def\<close>)
  qed
qed (simp_all add: extract_item_def dict_get_def)

lemma extract_items_result:
  "fst (extract_items items w) =
     (if list_all well_formed_item items then Inr () else Inl AttributeError) \<and>
   (\<exists>evs. log (snd (extract_items items w)) = log w @ evs \<and>
          user_records evs = map spec_user_record (takeWhile well_formed_item items)) \<and>
   requests_made (snd (extract_items items w)) = requests_made w \<and>
   slept (snd (extract_items items w)) = slept w"
proof (induction items arbitrary: w)
  case Nil
  then show ?case by simp
next
  case (Cons item rest)
  show ?case
  proof (cases "well_formed_item item")
    case False
    then show ?thesis by (simp add: extract_item_malformed)
  next
    case True
    from extract_item_well_formed [OF True, of w] obtain ch where
      step: "extract_item item w =
        (Inr (), w\<lparr>log := log w @ [ChannelInfo ch, UserInfo (spec_user_record item)]\<rparr>)"
      by blast
    let ?w = "w\<lparr>log := log w @ [ChannelInfo ch, UserInfo (spec_user_record item)]\<rparr>"
    from Cons.IH [of ?w] obtain evs where
      ih: "fst (extract_items rest ?w) =
             (if list_all well_formed_item rest then Inr () else Inl AttributeError)"
          "log (snd (extract_items rest ?w)) = log ?w @ evs"
          "user_records evs = map spec_user_record (takeWhile well_formed_item rest)"
          "requests_made (snd (extract_items rest ?w)) = requests_made ?w"
          "slept (snd (extract_items rest ?w)) = slept ?w"
      by blast
    have eq: "extract_items (item # rest) w = extract_items rest ?w"
      by (simp add: step)
    have "log (snd (extract_items rest ?w)) =
            log w @ (ChannelInfo ch # UserInfo (spec_user_record item) # evs)"
      using ih(2) by simp
    moreover have "user_records (ChannelInfo ch # UserInfo (spec_user_record item) # evs) =
            map spec_user_record (takeWhile well_formed_item (item # rest))"
      using ih(3) True by simp
    ultimately have "\<exists>evs. log (snd (extract_items rest ?w)) = log w @ evs \<and>
          user_records evs = map spec_user_record (takeWhile well_formed_item (item # rest))"
      by blast
    with ih(1,4,5) True show ?thesis unfolding eq by simp
  qed
qed

lemma emitted_append: "log w' = log w @ evs \<Longrightarrow> emitted w w' = evs"
  by (simp add: emitted_def)

lemma extract_passes_shape:
  assumes "map_of kvs ''data'' = Some (JList items)"
  shows "extract_user_info (JDict kvs) w =
     (if list_all well_formed_item items then Inr ()
      else Inl (ValueError ''Unexpected error during data extraction: {e}'' (Some AttributeError)),
      snd (extract_items items w))"
proof -
  have "top_level_ok (JDict kvs)" using assms by (simp add: top_level_ok_def)
  then have chk: "invalid_or_missing_data (JDict kvs) = Inr False"
    by (simp add: shape_check_iff)
  have it: "bind_exn (py_getitem (JDict kvs) ''data'') py_iter = Inr items"
    using assms by (simp add: bind_exn_def py_getitem_def py_iter_def)
  obtain r w' where rw: "extract_items items w = (r, w')" by (cases "extract_items items w")
  with extract_items_result [of items w]
  have r: "r = (if list_all well_formed_item items then Inr () else Inl AttributeError)"
    by simp
  show ?thesis
    by (simp add: extract_user_info_def chk it rw r)
qed

text \<open>
  Claim C3, as amended. For a document that is an object with \<open>data\<close> bound to a list: when
  every element is well formed (an object whose \<open>channel\<close>, when present, is an object whose
  \<open>user\<close>, when present, is an object), extraction succeeds and logs exactly one user
  record per element, in the order of the input, each the record of the specification
  (a missing \<open>channel\<close>, \<open>user\<close> or leaf field gives \<^verbatim>\<open>None\<close>). Otherwise extraction fails
  with a \<open>ValueError\<close> whose context is \<open>AttributeError\<close>, after logging the records of the
  elements that precede the first malformed one.
\<close>

theorem extraction_one_record_per_well_formed_item:
  assumes "map_of kvs ''data'' = Some (JList items)"
  shows "((\<forall>item\<in>set items. well_formed_item item) \<longrightarrow>
            fst (extract_user_info (JDict kvs) w) = Inr () \<and>
            user_records (emitted w (snd (extract_user_info (JDict kvs) w))) =
              map spec_user_record items) \<and>
         (\<not> (\<forall>item\<in>set items. well_formed_item item) \<longrightarrow>
            (\<exists>msg. fst (extract_user_info (JDict kvs) w) =
                     Inl (ValueError msg (Some AttributeError))) \<and>
            user_records (emitted w (snd (extract_user_info (JDict kvs) w))) =
              map spec_user_record (takeWhile well_formed_item items))"
proof -
  from extract_items_result [of items w] obtain evs where
    evs: "log (snd (extract_items items w)) = log w @ evs"
         "user_records evs = map spec_user_record (takeWhile well_formed_item items)"
    by blast
  have recs: "user_records (emitted w (snd (extract_user_info (JDict kvs) w))) =
       map spec_user_record (takeWhile well_formed_item items)"
    using evs by (simp add: extract_passes_shape [OF assms] emitted_append)
  show ?thesis
  proof (cases "\<forall>item\<in>set items. well_formed_item item")
    case True
    then have "takeWhile well_formed_item items = items" by simp
    with recs True show ?thesis
      by (simp add: extract_passes_shape [OF assms] list_all_iff)
  next
    case False
    with recs show ?thesis
      by (auto simp: extract_passes_shape [OF assms] list_all_iff)
  qed
qed

theorem extraction_one_record_per_well_formed_item_witness:
  "fst (extract_user_info
          (JDict [(''data'', JList
             [JDict [(''channel'', JDict [(''user'',
                        JDict [(''id'', JStr ''1''), (''username'', JStr ''a'')])])],
              JDict []])])
          fresh_world) = Inr () \<and>
   user_records (emitted fresh_world (snd (extract_user_info
          (JDict [(''data'', JList
             [JDict [(''channel'', JDict [(''user'',
                        JDict [(''id'', JStr ''1''), (''username'', JStr ''a'')])])],
              JDict []])])
          fresh_world))) =
     [\<lparr>user_id = JStr ''1'', username = JStr ''a'', bio = JNull,
       social = \<lparr>instagram = JNull, twitter = JNull, youtube = JNull,
                 discord = JNull, tiktok = JNull, facebook = JNull\<rparr>,
       profilepic = JNull\<rparr>,
      \<lparr>user_id = JNull, username = JNull, bio = JNull,
       social = \<lparr>instagram = JNull, twitter = JNull, youtube = JNull,
                 discord = JNull, tiktok = JNull, facebook = JNull\<rparr>,
       profilepic = JNull\<rparr>]"
proof -
  let ?items = "[JDict [(''channel'', JDict [(''user'',
                        JDict [(''id'', JStr ''1''), (''username'', JStr ''a'')])])],
                 JDict []]"
  have h1: "map_of [(''data'', JList ?items)] ''data'' = Some (JList ?items)" by simp
  have h2: "\<forall>item\<in>set ?items. well_formed_item item"
    by (simp add: well_formed_item_def)
  note t = extraction_one_record_per_well_formed_item [OF h1, of fresh_world]
  from t [THEN conjunct1, THEN mp, OF h2] show ?thesis
    by (simp add: spec_user_record_def optional_field_def)
qed

text \<open>
  Against claim C3 as stated: an element whose \<open>channel\<close> is \<^verbatim>\<open>null\<close>, and an element that is
  a number, make the whole extraction fail.
\<close>

theorem extraction_fails_on_malformed_element:
  "fst (extract_user_info (JDict [(''data'', JList [JDict [(''channel'', JNull)]])]) fresh_world) =
     Inl (ValueError ''Unexpected error during data extraction: {e}'' (Some AttributeError)) \<and>
   fst (extract_user_info (JDict [(''data'', JList [JInt 1])]) fresh_world) =
     Inl (ValueError ''Unexpected error during data extraction: {e}'' (Some AttributeError))"
proof -
  have a: "map_of [(''data'', JList [JDict [(''channel'', JNull)]])] ''data'' =
             Some (JList [JDict [(''channel'', JNull)]])" by simp
  have b: "map_of [(''data'', JList [JInt 1])] ''data'' = Some (JList [JInt 1])" by simp
  show ?thesis
    by (simp add: extract_passes_shape [OF a] extract_passes_shape [OF b] well_formed_item_def)
qed

text \<open>
  Claim C5, as amended. Every document that is not an object with \<open>data\<close> bound to a list
  is rejected with a \<open>ValueError\<close>. For a document that is an object or is falsy, the error
  is the invalid-shape error exactly when the document is not such an object. A document
  that is such an object passes the check of line 119 and never fails with the
  invalid-shape error. The document \<^verbatim>\<open>{"data":"not-a-list"}\<close> fails with the invalid-shape error.
\<close>

theorem top_level_shape_check:
  "(\<not> top_level_ok doc \<longrightarrow>
      (\<exists>msg ctx. fst (extract_user_info doc w) = Inl (ValueError msg (Some ctx)))) \<and>
   (is_object doc \<or> \<not> truthy doc \<longrightarrow>
      fails_with_invalid_shape doc w = (\<not> top_level_ok doc)) \<and>
   (top_level_ok doc \<longrightarrow>
      invalid_or_missing_data doc = Inr False \<and> \<not> fails_with_invalid_shape doc w) \<and>
   fails_with_invalid_shape (JDict [(''data'', JStr ''not-a-list'')]) w"
proof (intro conjI impI)
  assume "\<not> top_level_ok doc"
  then have "invalid_or_missing_data doc = Inr True \<or> invalid_or_missing_data doc = Inl TypeError"
    using shape_check_cases [of doc] shape_check_iff [of doc] by blast
  then show "\<exists>msg ctx. fst (extract_user_info doc w) = Inl (ValueError msg (Some ctx))"
    by (auto simp: extract_rejects_shape extract_type_error)
next
  have ok: "\<not> fails_with_invalid_shape doc w" if "top_level_ok doc"
  proof -
    from top_level_okD [OF that] obtain kvs items where
      "doc = JDict kvs" "map_of kvs ''data'' = Some (JList items)" by blast
    then show ?thesis
      by (simp add: fails_with_invalid_shape_def extract_passes_shape is_invalid_shape_error_def)
  qed
  {
    assume "top_level_ok doc"
    then show "invalid_or_missing_data doc = Inr False" by (simp add: shape_check_iff)
  }
  {
    assume "top_level_ok doc"
    then show "\<not> fails_with_invalid_shape doc w" by (rule ok)
  }
  {
    assume "is_object doc \<or> \<not> truthy doc"
    then have chk: "invalid_or_missing_data doc = Inr (\<not> top_level_ok doc)"
      by (rule shape_check_object_or_falsy)
    show "fails_with_invalid_shape doc w = (\<not> top_level_ok doc)"
    proof (cases "top_level_ok doc")
      case True
      then show ?thesis using ok by simp
    next
      case False
      with chk have "invalid_or_missing_data doc = Inr True" by simp
      then show ?thesis using False
        by (simp add: fails_with_invalid_shape_def extract_rejects_shape is_invalid_shape_error_def)
    qed
  }
  have "invalid_or_missing_data (JDict [(''data'', JStr ''not-a-list'')]) = Inr True"
    by (simp add: invalid_or_missing_data_def bind_exn_def py_in_def py_getitem_def)
  then show "fails_with_invalid_shape (JDict [(''data'', JStr ''not-a-list'')]) w"
    by (simp add: fails_with_invalid_shape_def extract_rejects_shape is_invalid_shape_error_def)
qed

theorem top_level_shape_check_witness:
  "fails_with_invalid_shape (JDict [(''bio'', JStr ''x'')]) fresh_world \<and>
   \<not> fails_with_invalid_shape (JDict [(''data'', JList [])]) fresh_world \<and>
   invalid_or_missing_data (JDict [(''data'', JList [])]) = Inr False"
proof -
  have h1: "is_object (JDict [(''bio'', JStr ''x'')]) \<or> \<not> truthy (JDict [(''bio'', JStr ''x'')])"
    by simp
  have h2: "top_level_ok (JDict [(''data'', JList [])])" by (simp add: top_level_ok_def)
  have n: "\<not> top_level_ok (JDict [(''bio'', JStr ''x'')])" by (simp add: top_level_ok_def)
  note a = top_level_shape_check [of "JDict [(''bio'', JStr ''x'')]" fresh_world]
  note b = top_level_shape_check [of "JDict [(''data'', JList [])]" fresh_world]
  from a [THEN conjunct2, THEN conjunct1, rule_format, OF h1] n
       b [THEN conjunct2, THEN conjunct2, THEN conjunct1, rule_format, OF h2]
  show ?thesis by simp
qed

text \<open>
  Against claim C5 as stated: the document \<^verbatim>\<open>5\<close> is not an object with a \<open>data\<close> list, yet
  the error is not the invalid-shape one (the key test raises \<open>TypeError\<close>, which the
  catch-all handler wraps); and the document \<^verbatim>\<open>{"data":[1]}\<close> has the required top-level
  shape, yet extraction fails with a \<open>ValueError\<close>.
\<close>

theorem shape_error_is_not_exactly_the_shape_test:
  "\<not> top_level_ok (JInt 5) \<and>
   fst (extract_user_info (JInt 5) fresh_world) =
     Inl (ValueError ''Unexpected error during data extraction: {e}'' (Some TypeError)) \<and>
   \<not> fails_with_invalid_shape (JInt 5) fresh_world \<and>
   top_level_ok (JDict [(''data'', JList [JInt 1])]) \<and>
   fst (extract_user_info (JDict [(''data'', JList [JInt 1])]) fresh_world) =
     Inl (ValueError ''Unexpected error during data extraction: {e}'' (Some AttributeError))"
proof -
  have "invalid_or_missing_data (JInt 5) = Inl TypeError"
    by (simp add: invalid_or_missing_data_def bind_exn_def py_in_def)
  then have a: "extract_user_info (JInt 5) fresh_world =
     (Inl (ValueError ''Unexpected error during data extraction: {e}'' (Some TypeError)), fresh_world)"
    by (rule extract_type_error)
  have b: "map_of [(''data'', JList [JInt 1])] ''data'' = Some (JList [JInt 1])" by simp
  show ?thesis
    by (simp add: a fails_with_invalid_shape_def is_invalid_shape_error_def top_level_ok_def
          extract_passes_shape [OF b] well_formed_item_def)
qed


section \<open>The pipeline\<close>

lemma log_update_nothing: "w\<lparr>log := log w @ []\<rparr> = w"
  by simp

text \<open>The parser and the extractor touch nothing but the log, and what they append to it
  does not depend on the world they run in.\<close>

lemma parse_events:
  "\<exists>evs. user_records evs = [] \<and>
     (\<forall>w. parse_html_to_json lib html_content w =
            (fst (parse_html_to_json lib html_content w0), w\<lparr>log := log w @ evs\<rparr>))"
proof (cases "fst (parse_html_to_json lib html_content w0)")
  case (Inr doc)
  from parse_success_only [OF this] obtain sp b where
    "BeautifulSoup lib html_content = Inr sp" "soup_body sp = Some b"
    "json_loads lib (tag_text b) = Inr doc" by blast
  then have "\<forall>w. parse_html_to_json lib html_content w = (Inr doc, w\<lparr>log := log w @ []\<rparr>)"
    by (simp add: parse_success)
  with Inr show ?thesis by (intro exI [of _ "[]"]) simp
next
  case (Inl e)
  let ?ev = "if is_JSONDecodeError e then JsonParsingError else UnexpectedParseError e"
  from Inl have "\<forall>w. parse_html_to_json lib html_content w = (Inl e, logging ?ev w)"
    by (auto simp: parse_html_to_json_def split: sum.splits option.splits if_splits)
  then have "\<forall>w. parse_html_to_json lib html_content w = (Inl e, w\<lparr>log := log w @ [?ev]\<rparr>)"
    by (simp add: logging_def)
  moreover have "user_records [?ev] = []" by simp
  ultimately show ?thesis using Inl by (intro exI [of _ "[?ev]"]) simp
qed

lemma extract_item_events:
  assumes "well_formed_item item"
  shows "\<exists>ch. \<forall>w. extract_item item w =
           (Inr (), w\<lparr>log := log w @ [ChannelInfo ch, UserInfo (spec_user_record item)]\<rparr>)"
proof -
  from assms obtain kvs where item: "item = JDict kvs"
    by (auto simp: well_formed_item_def split: json.splits)
  show ?thesis
  proof (cases "map_of kvs ''channel''")
    case None
    then show ?thesis
      by (intro exI [of _ "JDict []"])
         (simp add: item extract_item_def dict_get_def build_record_object logging_def
            spec_user_record_def optional_field_no_channel)
  next
    case (Some ch)
    with assms item obtain ckvs where ch: "ch = JDict ckvs"
      by (auto simp: well_formed_item_def split: json.splits)
    show ?thesis
    proof (cases "map_of ckvs ''user''")
      case None
      with Some ch show ?thesis
        by (intro exI [of _ ch])
           (simp add: item extract_item_def dict_get_def build_record_object logging_def
              spec_user_record_def optional_field_no_user)
    next
      case u: (Some u)
      with assms item Some ch obtain ukvs where "u = JDict ukvs"
        by (cases u) (auto simp: well_formed_item_def)
      with Some ch u show ?thesis
        by (intro exI [of _ ch])
           (simp add: item extract_item_def dict_get_def build_record_object logging_def
              spec_user_record_def optional_field_user)
    qed
  qed
qed

lemma extract_items_events:
  "\<exists>evs. user_records evs = map spec_user_record (takeWhile well_formed_item items) \<and>
     (\<forall>w. extract_items items w =
            (if list_all well_formed_item items then Inr () else Inl AttributeError,
             w\<lparr>log := log w @ evs\<rparr>))"
proof (induction items)
  case Nil
  show ?case by (intro exI [of _ "[]"]) simp
next
  case (Cons item rest)
  show ?case
  proof (cases "well_formed_item item")
    case False
    then show ?thesis
      by (intro exI [of _ "[]"]) (simp add: extract_item_malformed)
  next
    case True
    from extract_item_events [OF True] obtain ch where
      step: "\<forall>w. extract_item item w =
        (Inr (), w\<lparr>log := log w @ [ChannelInfo ch, UserInfo (spec_user_record item)]\<rparr>)"
      by blast
    from Cons.IH obtain evs where
      ih: "user_records evs = map spec_user_record (takeWhile well_formed_item rest)"
          "\<forall>w. extract_items rest w =
            (if list_all well_formed_item rest then Inr () else Inl AttributeError,
             w\<lparr>log := log w @ evs\<rparr>)"
      by blast
    show ?thesis
      by (intro exI [of _ "ChannelInfo ch # UserInfo (spec_user_record item) # evs"])
         (simp add: step ih True)
  qed
qed

lemma extract_events:
  "\<exists>evs. (\<forall>w. extract_user_info doc w =
            (fst (extract_user_info doc w0), w\<lparr>log := log w @ evs\<rparr>)) \<and>
     (\<forall>kvs items. doc = JDict kvs \<and> map_of kvs ''data'' = Some (JList items) \<longrightarrow>
        user_records evs = map spec_user_record (takeWhile well_formed_item items))"
proof -
  consider (ok) "top_level_ok doc" | (bad) "invalid_or_missing_data doc = Inr True"
    | (err) "invalid_or_missing_data doc = Inl TypeError"
    using shape_check_cases [of doc] shape_check_iff [of doc] by blast
  then show ?thesis
  proof cases
    case ok
    from top_level_okD [OF ok] obtain kvs items where
      d: "doc = JDict kvs" "map_of kvs ''data'' = Some (JList items)" by blast
    from extract_items_events [of items] obtain evs where
      evs: "user_records evs = map spec_user_record (takeWhile well_formed_item items)"
        "\<forall>w. extract_items items w =
            (if list_all well_formed_item items then Inr () else Inl AttributeError,
             w\<lparr>log := log w @ evs\<rparr>)"
      by blast
    show ?thesis
      using d evs by (intro exI [of _ evs]) (simp add: extract_passes_shape)
  next
    case bad
    then have no: "\<not> top_level_ok doc" using shape_check_iff [of doc] by simp
    have "\<forall>kvs items. \<not> (doc = JDict kvs \<and> map_of kvs ''data'' = Some (JList items))"
      using no by (auto simp: top_level_ok_def)
    with bad show ?thesis
      by (intro exI [of _ "[]"]) (auto simp: extract_rejects_shape)
  next
    case err
    then have no: "\<not> top_level_ok doc" using shape_check_iff [of doc] by simp
    have "\<forall>kvs items. \<not> (doc = JDict kvs \<and> map_of kvs ''data'' = Some (JList items))"
      using no by (auto simp: top_level_ok_def)
    with err show ?thesis
      by (intro exI [of _ "[]"]) (auto simp: extract_type_error)
  qed
qed

lemma main_fetch_raised:
  "fst (get_html_content env 1 w) = Inl e \<Longrightarrow>
   main lib env w =
     (Inl (ValueError ''An error occurred: {e}'' (Some e)), snd (get_html_content env 1 w))"
  by (cases "get_html_content env 1 w") (simp add: main_def)

lemma main_fetch_failed:
  "fst (get_html_content env 1 w) = Inr None \<or> fst (get_html_content env 1 w) = Inr (Some []) \<Longrightarrow>
   main lib env w =
     (Inl (ValueError ''An error occurred: {e}''
            (Some (ValueError ''Failed to retrieve HTML content.'' None))),
      snd (get_html_content env 1 w))"
  by (cases "get_html_content env 1 w") (auto simp: main_def)

lemma main_parse_raised:
  "fst (get_html_content env 1 w) = Inr (Some body) \<Longrightarrow> body \<noteq> [] \<Longrightarrow>
   fst (parse_html_to_json lib body (snd (get_html_content env 1 w))) = Inl e \<Longrightarrow>
   main lib env w =
     (Inl (ValueError ''An error occurred: {e}'' (Some e)),
      snd (parse_html_to_json lib body (snd (get_html_content env 1 w))))"
  by (cases "get_html_content env 1 w";
      cases "parse_html_to_json lib body (snd (get_html_content env 1 w))")
     (simp add: main_def)

lemma main_parse_falsy:
  "fst (get_html_content env 1 w) = Inr (Some body) \<Longrightarrow> body \<noteq> [] \<Longrightarrow>
   fst (parse_html_to_json lib body (snd (get_html_content env 1 w))) = Inr doc \<Longrightarrow>
   \<not> truthy doc \<Longrightarrow>
   main lib env w =
     (Inl (ValueError ''An error occurred: {e}''
            (Some (ValueError ''Failed to parse HTML content to JSON.'' None))),
      snd (parse_html_to_json lib body (snd (get_html_content env 1 w))))"
  by (cases "get_html_content env 1 w";
      cases "parse_html_to_json lib body (snd (get_html_content env 1 w))")
     (simp add: main_def)

lemma main_extract:
  "fst (get_html_content env 1 w) = Inr (Some body) \<Longrightarrow> body \<noteq> [] \<Longrightarrow>
   fst (parse_html_to_json lib body (snd (get_html_content env 1 w))) = Inr doc \<Longrightarrow>
   truthy doc \<Longrightarrow>
   main lib env w =
     (case fst (extract_user_info doc
                  (snd (parse_html_to_json lib body (snd (get_html_content env 1 w))))) of
        Inr u \<Rightarrow> Inr u
      | Inl e \<Rightarrow> Inl (ValueError ''An error occurred: {e}'' (Some e)),
      snd (extract_user_info doc
             (snd (parse_html_to_json lib body (snd (get_html_content env 1 w))))))"
  by (cases "get_html_content env 1 w";
      cases "parse_html_to_json lib body (snd (get_html_content env 1 w))";
      cases "extract_user_info doc
               (snd (parse_html_to_json lib body (snd (get_html_content env 1 w))))")
     (auto simp: main_def split: sum.splits)

lemma fetch_ok_world:
  "world_ok w \<Longrightarrow> request_attempt (env (requests_made w)) = Inr content \<Longrightarrow>
   get_html_content env delay w = (Inr (Some content), issue_request (admitted_world w))"
  using loop_success [of 0 env "admitted_world w" content delay]
  by (simp add: get_html_content_body RETRY_TIMES_def)

lemma world_ok_accepts_default: "world_ok w \<Longrightarrow> sleep_accepts w 1"
  by (simp add: world_ok_def sleep_accepts_def PERIOD_def)

lemma sample_parse_not_json:
  "parse_html_to_json sample_library ''<html><body>not json</body></html>'' w =
     (Inl JSONDecodeError, logging JsonParsingError w)"
proof -
  have a: "BeautifulSoup sample_library ''<html><body>not json</body></html>'' =
             Inr \<lparr>soup_body = Some \<lparr>tag_text = ''not json''\<rparr>\<rparr>"
    by (simp add: sample_library_def sample_soup_not_json)
  have b: "soup_body \<lparr>soup_body = Some \<lparr>tag_text = ''not json''\<rparr>\<rparr> = Some \<lparr>tag_text = ''not json''\<rparr>"
    by simp
  have c: "json_loads sample_library (tag_text \<lparr>tag_text = ''not json''\<rparr>) = Inl JSONDecodeError"
    by (simp add: sample_library_def sample_loads_example)
  from a b c show ?thesis by (rule parse_not_json)
qed

lemma sample_parse_null:
  "parse_html_to_json sample_library ''<html><body>null</body></html>'' w = (Inr JNull, w)"
proof -
  have a: "BeautifulSoup sample_library ''<html><body>null</body></html>'' =
             Inr \<lparr>soup_body = Some \<lparr>tag_text = ''null''\<rparr>\<rparr>"
    by (simp add: sample_library_def sample_soup_null)
  have b: "soup_body \<lparr>soup_body = Some \<lparr>tag_text = ''null''\<rparr>\<rparr> = Some \<lparr>tag_text = ''null''\<rparr>"
    by simp
  have c: "json_loads sample_library (tag_text \<lparr>tag_text = ''null''\<rparr>) = Inr JNull"
    by (simp add: sample_library_def sample_loads_example)
  from a b c show ?thesis by (rule parse_success)
qed

lemma sample_parse_partial:
  \<open>parse_html_to_json sample_library ''<html><body>{"data":[{},1]}</body></html>'' w =
     (Inr (JDict [(''data'', JList [JDict [], JInt 1])]), w)\<close>
proof -
  have a: \<open>BeautifulSoup sample_library ''<html><body>{"data":[{},1]}</body></html>'' =
             Inr \<lparr>soup_body = Some \<lparr>tag_text = ''{"data":[{},1]}''\<rparr>\<rparr>\<close>
    by (simp add: sample_library_def sample_BeautifulSoup_def)
  have b: \<open>soup_body \<lparr>soup_body = Some \<lparr>tag_text = ''{"data":[{},1]}''\<rparr>\<rparr> =
             Some \<lparr>tag_text = ''{"data":[{},1]}''\<rparr>\<close>
    by simp
  have c: \<open>json_loads sample_library (tag_text \<lparr>tag_text = ''{"data":[{},1]}''\<rparr>) =
             Inr (JDict [(''data'', JList [JDict [], JInt 1])])\<close>
    by (simp add: sample_library_def sample_json_loads_def)
  from a b c show ?thesis by (rule parse_success)
qed

lemma sample_parse_one_user:
  \<open>parse_html_to_json sample_library
     ''<html><body>{"data":[{"channel":{"user":{"id":"1","username":"a"}}}]}</body></html>'' w =
     (Inr (JDict [(''data'', JList [JDict [(''channel'', JDict [(''user'',
               JDict [(''id'', JStr ''1''), (''username'', JStr ''a'')])])]])]), w)\<close>
proof -
  have a: \<open>BeautifulSoup sample_library
             ''<html><body>{"data":[{"channel":{"user":{"id":"1","username":"a"}}}]}</body></html>'' =
             Inr \<lparr>soup_body = Some \<lparr>tag_text =
               ''{"data":[{"channel":{"user":{"id":"1","username":"a"}}}]}''\<rparr>\<rparr>\<close>
    by (simp add: sample_library_def sample_BeautifulSoup_def)
  have b: \<open>soup_body \<lparr>soup_body = Some \<lparr>tag_text =
               ''{"data":[{"channel":{"user":{"id":"1","username":"a"}}}]}''\<rparr>\<rparr> =
             Some \<lparr>tag_text = ''{"data":[{"channel":{"user":{"id":"1","username":"a"}}}]}''\<rparr>\<close>
    by simp
  have c: \<open>json_loads sample_library (tag_text \<lparr>tag_text =
               ''{"data":[{"channel":{"user":{"id":"1","username":"a"}}}]}''\<rparr>) =
             Inr (JDict [(''data'', JList [JDict [(''channel'', JDict [(''user'',
               JDict [(''id'', JStr ''1''), (''username'', JStr ''a'')])])]])])\<close>
    by (simp add: sample_library_def sample_json_loads_def)
  from a b c show ?thesis by (rule parse_success)
qed

text \<open>
  Claim C6, as amended. \<^verbatim>\<open>main\<close> runs the fetch, then the parser, then the extractor, and
  stops at the first stage that fails: the world it leaves is the one that stage left, so
  no later stage has run. After a fetch or parse failure no user record has been logged;
  after a failure of the extractor on a document with a \<open>data\<close> list, the records of the
  elements before the first malformed one have been logged. Every failure surfaces as a
  \<open>ValueError\<close> whose context is the error of the failing stage: "Failed to retrieve HTML
  content." for every fetch that returns nothing, whatever the kind of its failure; the
  exception the parser raised, or "Failed to parse HTML content to JSON." for a falsy
  document; the exception the extractor raised. So when the fetch succeeds and the body
  fails to parse, the context is the parser's exception. In a world a run can be in, the
  fetch itself returns and does not raise.
\<close>

theorem main_stops_at_first_failing_stage:
  "(world_ok w \<longrightarrow> (\<exists>fetched. fst (get_html_content env 1 w) = Inr fetched)) \<and>
   (\<forall>e. fst (get_html_content env 1 w) = Inl e \<longrightarrow>
      (\<exists>msg. fst (main lib env w) = Inl (ValueError msg (Some e))) \<and>
      snd (main lib env w) = snd (get_html_content env 1 w) \<and>
      user_records (emitted w (snd (main lib env w))) = []) \<and>
   (fst (get_html_content env 1 w) = Inr None \<or> fst (get_html_content env 1 w) = Inr (Some []) \<longrightarrow>
      (\<exists>msg. fst (main lib env w) =
          Inl (ValueError msg (Some (ValueError ''Failed to retrieve HTML content.'' None)))) \<and>
      snd (main lib env w) = snd (get_html_content env 1 w) \<and>
      user_records (emitted w (snd (main lib env w))) = []) \<and>
   (\<forall>body. fst (get_html_content env 1 w) = Inr (Some body) \<and> body \<noteq> [] \<longrightarrow>
      (\<forall>e. fst (parse_html_to_json lib body (snd (get_html_content env 1 w))) = Inl e \<longrightarrow>
         (\<exists>msg. fst (main lib env w) = Inl (ValueError msg (Some e))) \<and>
         snd (main lib env w) = snd (parse_html_to_json lib body (snd (get_html_content env 1 w))) \<and>
         user_records (emitted w (snd (main lib env w))) = []) \<and>
      (\<forall>doc. fst (parse_html_to_json lib body (snd (get_html_content env 1 w))) = Inr doc \<and>
              \<not> truthy doc \<longrightarrow>
         (\<exists>msg. fst (main lib env w) =
            Inl (ValueError msg (Some (ValueError ''Failed to parse HTML content to JSON.'' None)))) \<and>
         snd (main lib env w) = snd (parse_html_to_json lib body (snd (get_html_content env 1 w))) \<and>
         user_records (emitted w (snd (main lib env w))) = []) \<and>
      (\<forall>doc. fst (parse_html_to_json lib body (snd (get_html_content env 1 w))) = Inr doc \<and>
              truthy doc \<longrightarrow>
         snd (main lib env w) =
           snd (extract_user_info doc
                  (snd (parse_html_to_json lib body (snd (get_html_content env 1 w))))) \<and>
         (\<forall>e. fst (extract_user_info doc
                      (snd (parse_html_to_json lib body (snd (get_html_content env 1 w))))) = Inl e \<longrightarrow>
              (\<exists>msg. fst (main lib env w) = Inl (ValueError msg (Some e)))) \<and>
         (fst (extract_user_info doc
                 (snd (parse_html_to_json lib body (snd (get_html_content env 1 w))))) = Inr () \<longrightarrow>
              fst (main lib env w) = Inr ()) \<and>
         (\<forall>kvs items. doc = JDict kvs \<and> map_of kvs ''data'' = Some (JList items) \<longrightarrow>
              user_records (emitted w (snd (main lib env w))) =
                map spec_user_record (takeWhile well_formed_item items))))"
proof -
  let ?f = "get_html_content env 1 w"
  from get_html_content_log [of env 1 w] obtain fevs where
    fevs: "log (snd ?f) = log w @ fevs" "user_records fevs = []" by blast
  have stage0: "\<exists>fetched. fst ?f = Inr fetched" if ok: "world_ok w"
    using attempt_loop_never_raises [of "admitted_world w" 1 env 0]
      world_ok_accepts_default [OF ok]
    by (simp add: get_html_content_body [OF ok])
  have raised: "(\<exists>msg. fst (main lib env w) = Inl (ValueError msg (Some e))) \<and>
      snd (main lib env w) = snd ?f \<and> user_records (emitted w (snd (main lib env w))) = []"
    if "fst ?f = Inl e" for e
    using main_fetch_raised [OF that, of lib] fevs by (simp add: emitted_append)
  have stage1: "(\<exists>msg. fst (main lib env w) =
          Inl (ValueError msg (Some (ValueError ''Failed to retrieve HTML content.'' None)))) \<and>
      snd (main lib env w) = snd ?f \<and> user_records (emitted w (snd (main lib env w))) = []"
    if "fst ?f = Inr None \<or> fst ?f = Inr (Some [])"
    using main_fetch_failed [OF that, of lib] fevs by (simp add: emitted_append)
  have stage2: "(\<forall>e. fst (parse_html_to_json lib body (snd ?f)) = Inl e \<longrightarrow>
         (\<exists>msg. fst (main lib env w) = Inl (ValueError msg (Some e))) \<and>
         snd (main lib env w) = snd (parse_html_to_json lib body (snd ?f)) \<and>
         user_records (emitted w (snd (main lib env w))) = []) \<and>
      (\<forall>doc. fst (parse_html_to_json lib body (snd ?f)) = Inr doc \<and> \<not> truthy doc \<longrightarrow>
         (\<exists>msg. fst (main lib env w) =
            Inl (ValueError msg (Some (ValueError ''Failed to parse HTML content to JSON.'' None)))) \<and>
         snd (main lib env w) = snd (parse_html_to_json lib body (snd ?f)) \<and>
         user_records (emitted w (snd (main lib env w))) = []) \<and>
      (\<forall>doc. fst (parse_html_to_json lib body (snd ?f)) = Inr doc \<and> truthy doc \<longrightarrow>
         snd (main lib env w) =
           snd (extract_user_info doc (snd (parse_html_to_json lib body (snd ?f)))) \<and>
         (\<forall>e. fst (extract_user_info doc (snd (parse_html_to_json lib body (snd ?f)))) = Inl e \<longrightarrow>
              (\<exists>msg. fst (main lib env w) = Inl (ValueError msg (Some e)))) \<and>
         (fst (extract_user_info doc (snd (parse_html_to_json lib body (snd ?f)))) = Inr () \<longrightarrow>
              fst (main lib env w) = Inr ()) \<and>
         (\<forall>kvs items. doc = JDict kvs \<and> map_of kvs ''data'' = Some (JList items) \<longrightarrow>
              user_records (emitted w (snd (main lib env w))) =
                map spec_user_record (takeWhile well_formed_item items)))"
    if b: "fst ?f = Inr (Some body) \<and> body \<noteq> []" for body
  proof -
    let ?p = "parse_html_to_json lib body (snd ?f)"
    from b have b1: "fst ?f = Inr (Some body)" and b2: "body \<noteq> []" by simp_all
    from parse_events [of lib body "snd ?f"] obtain pevs where
      pevs: "user_records pevs = []"
        "?p = (fst ?p, (snd ?f)\<lparr>log := log (snd ?f) @ pevs\<rparr>)" by blast
    have "log (snd ?p) = log (snd ?f) @ pevs" by (subst pevs(2)) simp
    then have plog: "log (snd ?p) = log w @ (fevs @ pevs)" "user_records (fevs @ pevs) = []"
      using fevs pevs(1) by (simp_all add: user_records_append)
    have none: "user_records (emitted w (snd ?p)) = []"
      using plog by (simp add: emitted_append)
    have r: "(\<exists>msg. fst (main lib env w) = Inl (ValueError msg (Some e))) \<and>
         snd (main lib env w) = snd ?p \<and> user_records (emitted w (snd (main lib env w))) = []"
      if "fst ?p = Inl e" for e
      using main_parse_raised [OF b1 b2 that] none by simp
    have f: "(\<exists>msg. fst (main lib env w) =
            Inl (ValueError msg (Some (ValueError ''Failed to parse HTML content to JSON.'' None)))) \<and>
         snd (main lib env w) = snd ?p \<and> user_records (emitted w (snd (main lib env w))) = []"
      if "fst ?p = Inr doc \<and> \<not> truthy doc" for doc
      using main_parse_falsy [OF b1 b2, of lib doc] that none by simp
    have x: "snd (main lib env w) = snd (extract_user_info doc (snd ?p)) \<and>
         (\<forall>e. fst (extract_user_info doc (snd ?p)) = Inl e \<longrightarrow>
              (\<exists>msg. fst (main lib env w) = Inl (ValueError msg (Some e)))) \<and>
         (fst (extract_user_info doc (snd ?p)) = Inr () \<longrightarrow> fst (main lib env w) = Inr ()) \<and>
         (\<forall>kvs items. doc = JDict kvs \<and> map_of kvs ''data'' = Some (JList items) \<longrightarrow>
              user_records (emitted w (snd (main lib env w))) =
                map spec_user_record (takeWhile well_formed_item items))"
      if d: "fst ?p = Inr doc \<and> truthy doc" for doc
    proof -
      let ?x = "extract_user_info doc (snd ?p)"
      from extract_events [of doc "snd ?p"] obtain xevs where
        xevs: "?x = (fst ?x, (snd ?p)\<lparr>log := log (snd ?p) @ xevs\<rparr>)"
          "\<forall>kvs items. doc = JDict kvs \<and> map_of kvs ''data'' = Some (JList items) \<longrightarrow>
             user_records xevs = map spec_user_record (takeWhile well_formed_item items)"
        by blast
      have "log (snd ?x) = log w @ ((fevs @ pevs) @ xevs)"
        using plog(1) by (subst xevs(1)) simp
      then have "emitted w (snd ?x) = (fevs @ pevs) @ xevs" by (rule emitted_append)
      then have recs: "user_records (emitted w (snd ?x)) = user_records xevs"
        using plog(2) by (simp add: user_records_append)
      from d have m: "main lib env w =
          (case fst ?x of Inr u \<Rightarrow> Inr u
           | Inl e \<Rightarrow> Inl (ValueError ''An error occurred: {e}'' (Some e)), snd ?x)"
        using main_extract [OF b1 b2, of lib doc] by simp
      have fin: "\<forall>kvs items. doc = JDict kvs \<and> map_of kvs ''data'' = Some (JList items) \<longrightarrow>
              user_records (emitted w (snd ?x)) =
                map spec_user_record (takeWhile well_formed_item items)"
        using recs xevs(2) by metis
      have "snd (main lib env w) = snd ?x" by (simp add: m)
      moreover have "\<forall>e. fst ?x = Inl e \<longrightarrow>
              (\<exists>msg. fst (main lib env w) = Inl (ValueError msg (Some e)))"
        by (simp add: m)
      moreover have "fst ?x = Inr () \<longrightarrow> fst (main lib env w) = Inr ()"
        by (simp add: m)
      ultimately show ?thesis using fin by simp
    qed
    from r f x show ?thesis by blast
  qed
  from stage0 raised stage1 stage2 show ?thesis by blast
qed

theorem main_stops_at_first_failing_stage_witness:
  \<open>(\<exists>msg. fst (main sample_library (\<lambda>n. Response 200 ''<html><body>not json</body></html>'')
                 fresh_world) = Inl (ValueError msg (Some JSONDecodeError))) \<and>
   user_records (emitted fresh_world
     (snd (main sample_library (\<lambda>n. Response 200 ''<html><body>not json</body></html>'')
             fresh_world))) = []\<close>
proof -
  let ?body = "''<html><body>not json</body></html>''"
  let ?env = "\<lambda>n::nat. Response 200 ?body"
  have f: "get_html_content ?env 1 fresh_world =
             (Inr (Some ?body), issue_request (admitted_world fresh_world))"
    by (rule fetch_ok_world [OF fresh_world_ok])
       (simp add: request_attempt_def raise_for_status_def)
  have h1: "fst (get_html_content ?env 1 fresh_world) = Inr (Some ?body) \<and> ?body \<noteq> []"
    by (simp add: f)
  have p: "fst (parse_html_to_json sample_library ?body (snd (get_html_content ?env 1 fresh_world))) =
             Inl JSONDecodeError"
    by (simp add: sample_parse_not_json)
  note t = main_stops_at_first_failing_stage [of fresh_world ?env sample_library]
  from t [THEN conjunct2, THEN conjunct2, THEN conjunct2, rule_format, OF h1,
          THEN conjunct1, rule_format, OF p]
  show ?thesis by blast
qed

text \<open>
  Against claim C6 as stated. A run whose fetch ends on HTTP status 404 and a run whose
  fetch exhausts its retries on timeouts surface the same error, context included, so
  the error does not carry the underlying kind of the failure. And a run that fails in
  the extractor, on the second element of \<^verbatim>\<open>{"data":[{},1]}\<close>, has by then logged the record of
  the first element: a partial result.
\<close>

theorem main_hides_fetch_kind_and_keeps_partial_records:
  \<open>fst (main sample_library (\<lambda>n. Response 404 []) fresh_world) =
     Inl (ValueError ''An error occurred: {e}''
           (Some (ValueError ''Failed to retrieve HTML content.'' None))) \<and>
   fst (main sample_library (\<lambda>n. Raises Timeout) fresh_world) =
     Inl (ValueError ''An error occurred: {e}''
           (Some (ValueError ''Failed to retrieve HTML content.'' None))) \<and>
   fst (main sample_library (\<lambda>n. Response 200 ''<html><body>{"data":[{},1]}</body></html>'')
          fresh_world) =
     Inl (ValueError ''An error occurred: {e}''
           (Some (ValueError ''Unexpected error during data extraction: {e}''
                   (Some AttributeError)))) \<and>
   user_records (emitted fresh_world
     (snd (main sample_library (\<lambda>n. Response 200 ''<html><body>{"data":[{},1]}</body></html>'')
             fresh_world))) =
     [\<lparr>user_id = JNull, username = JNull, bio = JNull,
       social = \<lparr>instagram = JNull, twitter = JNull, youtube = JNull,
                 discord = JNull, tiktok = JNull, facebook = JNull\<rparr>,
       profilepic = JNull\<rparr>]\<close>
proof -
  let ?a = "admitted_world fresh_world"
  have acc: "sleep_accepts ?a 1" using fresh_world_accepts_default by simp
  have "terminal_failure (Response 404 [])"
    by (simp add: terminal_failure_def request_attempt_def raise_for_status_def)
  then have a: "fst (get_html_content (\<lambda>n. Response 404 []) 1 fresh_world) = Inr None"
    using run_to_terminal [of ?a 1 0 0 "\<lambda>n. Response 404 []"] acc
    by (simp add: get_html_content_body [OF fresh_world_ok] RETRY_TIMES_def)
  have "transient_failure (Raises Timeout)"
    by (simp add: transient_failure_def request_attempt_def)
  then have c: "fst (get_html_content (\<lambda>n. Raises Timeout) 1 fresh_world) = Inr None"
    using run_exhausted [of ?a 1 0 2 "\<lambda>n. Raises Timeout"] acc
    by (simp add: get_html_content_body [OF fresh_world_ok] RETRY_TIMES_def)
  let ?body = \<open>''<html><body>{"data":[{},1]}</body></html>''\<close>
  let ?env = "\<lambda>n::nat. Response 200 ?body"
  let ?doc = "JDict [(''data'', JList [JDict [], JInt 1])]"
  let ?w1 = "issue_request ?a"
  have f: "get_html_content ?env 1 fresh_world = (Inr (Some ?body), ?w1)"
    by (rule fetch_ok_world [OF fresh_world_ok])
       (simp add: request_attempt_def raise_for_status_def)
  have m: "main sample_library ?env fresh_world =
      (case fst (extract_user_info ?doc ?w1) of Inr u \<Rightarrow> Inr u
       | Inl e \<Rightarrow> Inl (ValueError ''An error occurred: {e}'' (Some e)),
       snd (extract_user_info ?doc ?w1))"
    using main_extract [of ?env fresh_world ?body sample_library ?doc]
    by (simp add: f sample_parse_partial)
  have d: "map_of [(''data'', JList [JDict [], JInt 1])] ''data'' = Some (JList [JDict [], JInt 1])"
    by simp
  have x: "extract_user_info ?doc ?w1 =
      (Inl (ValueError ''Unexpected error during data extraction: {e}'' (Some AttributeError)),
       snd (extract_items [JDict [], JInt 1] ?w1))"
    by (simp add: extract_passes_shape [OF d] well_formed_item_def)
  have wf: "well_formed_item (JDict [])" "\<not> well_formed_item (JInt 1)"
    by (simp_all add: well_formed_item_def)
  from extract_items_events [of "[JDict [], JInt 1]"] obtain evs where
    evs: "user_records evs = [spec_user_record (JDict [])]"
      "snd (extract_items [JDict [], JInt 1] ?w1) = ?w1\<lparr>log := log ?w1 @ evs\<rparr>"
    using wf by auto
  have "log (snd (extract_items [JDict [], JInt 1] ?w1)) = log fresh_world @ evs"
    by (subst evs(2)) simp
  then have "emitted fresh_world (snd (extract_items [JDict [], JInt 1] ?w1)) = evs"
    by (rule emitted_append)
  then have recs: "user_records (emitted fresh_world (snd (main sample_library ?env fresh_world))) =
      [spec_user_record (JDict [])]"
    using evs(1) by (simp add: m x)
  have third: "fst (main sample_library ?env fresh_world) =
     Inl (ValueError ''An error occurred: {e}''
           (Some (ValueError ''Unexpected error during data extraction: {e}''
                   (Some AttributeError))))"
    by (simp add: m x)
  from a c third recs show ?thesis
    by (simp add: main_fetch_failed spec_user_record_def optional_field_def)
qed

text \<open>What a run of \<^verbatim>\<open>main\<close> changes after its fetch: it adds lines to the log, nothing else.\<close>

lemma main_world:
  "\<exists>evs. snd (main lib env w) =
           (snd (get_html_content env 1 w))\<lparr>log := log (snd (get_html_content env 1 w)) @ evs\<rparr>"
proof -
  let ?f = "get_html_content env 1 w"
  have same: "\<exists>evs. snd ?f = (snd ?f)\<lparr>log := log (snd ?f) @ evs\<rparr>"
    by (rule exI [of _ "[]"]) simp
  show ?thesis
  proof (cases "fst ?f")
    case (Inl e)
    then show ?thesis using same by (simp add: main_fetch_raised)
  next
    case (Inr fetched)
    show ?thesis
    proof (cases "fetched = None \<or> fetched = Some []")
      case True
      with Inr have "fst ?f = Inr None \<or> fst ?f = Inr (Some [])" by auto
      then show ?thesis using same by (simp add: main_fetch_failed)
    next
      case False
      then obtain body where b: "fetched = Some body" "body \<noteq> []" by auto
      with Inr have f: "fst ?f = Inr (Some body)" by simp
      let ?p = "parse_html_to_json lib body (snd ?f)"
      from parse_events [of lib body "snd ?f"] obtain pevs where
        pevs: "?p = (fst ?p, (snd ?f)\<lparr>log := log (snd ?f) @ pevs\<rparr>)" by blast
      then have sp: "snd ?p = (snd ?f)\<lparr>log := log (snd ?f) @ pevs\<rparr>"
        by (metis snd_conv)
      show ?thesis
      proof (cases "fst ?p")
        case (Inl e)
        have "snd (main lib env w) = snd ?p"
          by (simp add: main_parse_raised [OF f b(2) Inl])
        then show ?thesis using sp by auto
      next
        case d: (Inr doc)
        show ?thesis
        proof (cases "truthy doc")
          case False
          have "snd (main lib env w) = snd ?p"
            by (simp add: main_parse_falsy [OF f b(2) d False])
          then show ?thesis using sp by auto
        next
          case True
          let ?x = "extract_user_info doc (snd ?p)"
          from extract_events [of doc "snd ?p"] obtain xevs where
            "?x = (fst ?x, (snd ?p)\<lparr>log := log (snd ?p) @ xevs\<rparr>)" by blast
          then have sx: "snd ?x = (snd ?p)\<lparr>log := log (snd ?p) @ xevs\<rparr>" by (metis snd_conv)
          have "(snd ?p)\<lparr>log := log (snd ?p) @ xevs\<rparr> =
                (snd ?f)\<lparr>log := log (snd ?f) @ (pevs @ xevs)\<rparr>"
            by (subst sp, subst sp) simp
          with sx have "snd ?x = (snd ?f)\<lparr>log := log (snd ?f) @ (pevs @ xevs)\<rparr>"
            by (rule trans)
          moreover have "snd (main lib env w) = snd ?x"
            by (simp add: main_extract [OF f b(2) d True])
          ultimately show ?thesis by auto
        qed
      qed
    qed
  qed
qed

lemma stage_events:
  "log w' = log w @ evs \<Longrightarrow> log w'' = log w' @ evs' \<Longrightarrow> emitted w w'' = evs @ evs'"
  by (simp add: emitted_def)

text \<open>
  Claim C8. The parse and extract stages have no state of their own: from any two worlds,
  on the same body the parser returns the same result and logs the same lines, and on the
  same document so does the extractor (the libraries being functions of their input). So
  two runs of \<^verbatim>\<open>main\<close> whose fetch returns the same body, from any two worlds and over any
  two network scripts, end with the same result (the same exception, or normal
  completion), log the same lines after their fetch, and log the same sequence of user
  records.
\<close>

theorem pipeline_outcome_depends_on_body_only:
  assumes f1: "fst (get_html_content env1 1 w1) = Inr (Some body)"
    and f2: "fst (get_html_content env2 1 w2) = Inr (Some body)"
  shows "fst (main lib env1 w1) = fst (main lib env2 w2) \<and>
         emitted (snd (get_html_content env1 1 w1)) (snd (main lib env1 w1)) =
           emitted (snd (get_html_content env2 1 w2)) (snd (main lib env2 w2)) \<and>
         user_records (emitted w1 (snd (main lib env1 w1))) =
           user_records (emitted w2 (snd (main lib env2 w2))) \<and>
         (\<forall>wa wb. fst (parse_html_to_json lib body wa) = fst (parse_html_to_json lib body wb) \<and>
            emitted wa (snd (parse_html_to_json lib body wa)) =
              emitted wb (snd (parse_html_to_json lib body wb))) \<and>
         (\<forall>doc wa wb. fst (extract_user_info doc wa) = fst (extract_user_info doc wb) \<and>
            emitted wa (snd (extract_user_info doc wa)) =
              emitted wb (snd (extract_user_info doc wb)))"
proof -
  let ?f1 = "get_html_content env1 1 w1" and ?f2 = "get_html_content env2 1 w2"
  from get_html_content_log [of env1 1 w1] obtain fevs1 where
    fevs1: "log (snd ?f1) = log w1 @ fevs1" "user_records fevs1 = []" by blast
  from get_html_content_log [of env2 1 w2] obtain fevs2 where
    fevs2: "log (snd ?f2) = log w2 @ fevs2" "user_records fevs2 = []" by blast
  from parse_events [of lib body] obtain pevs where
    pevs: "user_records pevs = []"
      "\<And>w. parse_html_to_json lib body w =
             (fst (parse_html_to_json lib body w1), w\<lparr>log := log w @ pevs\<rparr>)" by blast
  have pres: "fst (parse_html_to_json lib body w) = fst (parse_html_to_json lib body w1)" for w
    by (subst pevs(2)) simp
  have plog: "log (snd (parse_html_to_json lib body w)) = log w @ pevs" for w
    by (subst pevs(2)) simp
  have stage_p: "\<forall>wa wb. fst (parse_html_to_json lib body wa) = fst (parse_html_to_json lib body wb) \<and>
            emitted wa (snd (parse_html_to_json lib body wa)) =
              emitted wb (snd (parse_html_to_json lib body wb))"
  proof (intro allI)
    fix wa wb
    show "fst (parse_html_to_json lib body wa) = fst (parse_html_to_json lib body wb) \<and>
            emitted wa (snd (parse_html_to_json lib body wa)) =
              emitted wb (snd (parse_html_to_json lib body wb))"
      using pres [of wa] pres [of wb] emitted_append [OF plog [of wa]]
        emitted_append [OF plog [of wb]] by simp
  qed
  have xfacts: "\<exists>xevs. \<forall>w. fst (extract_user_info doc w) = fst (extract_user_info doc w1) \<and>
                  log (snd (extract_user_info doc w)) = log w @ xevs" for doc
  proof -
    from extract_events [of doc] obtain xevs where
      x: "\<And>w. extract_user_info doc w =
             (fst (extract_user_info doc w1), w\<lparr>log := log w @ xevs\<rparr>)" by blast
    have "fst (extract_user_info doc w) = fst (extract_user_info doc w1) \<and>
          log (snd (extract_user_info doc w)) = log w @ xevs" for w
      by (subst x, subst (2) x) simp
    then show ?thesis by blast
  qed
  have stage_x: "\<forall>doc wa wb. fst (extract_user_info doc wa) = fst (extract_user_info doc wb) \<and>
            emitted wa (snd (extract_user_info doc wa)) =
              emitted wb (snd (extract_user_info doc wb))"
  proof (intro allI)
    fix doc wa wb
    from xfacts [of doc] obtain xevs where
      x: "\<And>w. fst (extract_user_info doc w) = fst (extract_user_info doc w1)"
         "\<And>w. log (snd (extract_user_info doc w)) = log w @ xevs" by blast
    show "fst (extract_user_info doc wa) = fst (extract_user_info doc wb) \<and>
            emitted wa (snd (extract_user_info doc wa)) =
              emitted wb (snd (extract_user_info doc wb))"
      using x(1) [of wa] x(1) [of wb] emitted_append [OF x(2) [of wa]]
        emitted_append [OF x(2) [of wb]] by simp
  qed
  have runs: "fst (main lib env1 w1) = fst (main lib env2 w2) \<and>
         emitted (snd ?f1) (snd (main lib env1 w1)) = emitted (snd ?f2) (snd (main lib env2 w2)) \<and>
         user_records (emitted w1 (snd (main lib env1 w1))) =
           user_records (emitted w2 (snd (main lib env2 w2)))"
  proof (cases "body = []")
    case True
    with f1 f2 fevs1 fevs2 show ?thesis
      by (simp add: main_fetch_failed emitted_append emitted_def)
  next
    case False
    let ?p1 = "parse_html_to_json lib body (snd ?f1)"
    let ?p2 = "parse_html_to_json lib body (snd ?f2)"
    have peq: "fst ?p1 = fst ?p2" using stage_p by blast
    have a1: "emitted (snd ?f1) (snd ?p1) = pevs" using plog by (rule emitted_append)
    have a2: "emitted (snd ?f2) (snd ?p2) = pevs" using plog by (rule emitted_append)
    have n1: "user_records (emitted w1 (snd ?p1)) = []"
      using stage_events [OF fevs1(1) plog] fevs1(2) pevs(1) by (simp add: user_records_append)
    have n2: "user_records (emitted w2 (snd ?p2)) = []"
      using stage_events [OF fevs2(1) plog] fevs2(2) pevs(1) by (simp add: user_records_append)
    show ?thesis
    proof (cases "fst ?p1")
      case (Inl e)
      with peq have "fst ?p2 = Inl e" by simp
      with Inl n1 n2 a1 a2 show ?thesis
        by (simp add: main_parse_raised [OF f1 False] main_parse_raised [OF f2 False])
    next
      case (Inr doc)
      with peq have r2: "fst ?p2 = Inr doc" by simp
      show ?thesis
      proof (cases "truthy doc")
        case falsy: False
        with Inr r2 n1 n2 a1 a2 show ?thesis
          by (simp add: main_parse_falsy [OF f1 False] main_parse_falsy [OF f2 False])
      next
        case True
        let ?x1 = "extract_user_info doc (snd ?p1)" and ?x2 = "extract_user_info doc (snd ?p2)"
        from xfacts [of doc] obtain xevs where
          x: "\<And>w. fst (extract_user_info doc w) = fst (extract_user_info doc w1)"
             "\<And>w. log (snd (extract_user_info doc w)) = log w @ xevs" by blast
        have xeq: "fst ?x1 = fst ?x2" using stage_x by blast
        have b1: "emitted (snd ?f1) (snd ?x1) = pevs @ xevs"
          using plog x(2) by (rule stage_events)
        have b2: "emitted (snd ?f2) (snd ?x2) = pevs @ xevs"
          using plog x(2) by (rule stage_events)
        have l1: "log (snd ?p1) = log w1 @ (fevs1 @ pevs)" using fevs1(1) plog [of "snd ?f1"] by simp
        have l2: "log (snd ?p2) = log w2 @ (fevs2 @ pevs)" using fevs2(1) plog [of "snd ?f2"] by simp
        have e1: "emitted w1 (snd ?x1) = (fevs1 @ pevs) @ xevs"
          using l1 x(2) by (rule stage_events)
        have e2: "emitted w2 (snd ?x2) = (fevs2 @ pevs) @ xevs"
          using l2 x(2) by (rule stage_events)
        have "user_records (emitted w1 (snd ?x1)) = user_records (emitted w2 (snd ?x2))"
          unfolding e1 e2 using fevs1(2) fevs2(2) by (simp add: user_records_append)
        with xeq b1 b2 show ?thesis
          by (simp add: main_extract [OF f1 False Inr True] main_extract [OF f2 False r2 True])
      qed
    qed
  qed
  from runs stage_p stage_x show ?thesis by blast
qed

theorem pipeline_outcome_depends_on_body_only_witness:
  \<open>fst (main sample_library
          (\<lambda>n. Response 200
             ''<html><body>{"data":[{"channel":{"user":{"id":"1","username":"a"}}}]}</body></html>'')
          fresh_world) = Inr () \<and>
   fst (main sample_library
          (\<lambda>n. if n < 3 then Raises Timeout else Response 200
             ''<html><body>{"data":[{"channel":{"user":{"id":"1","username":"a"}}}]}</body></html>'')
          (snd (main sample_library
             (\<lambda>n. Response 200
                ''<html><body>{"data":[{"channel":{"user":{"id":"1","username":"a"}}}]}</body></html>'')
             fresh_world))) = Inr () \<and>
   user_records (emitted fresh_world
     (snd (main sample_library
             (\<lambda>n. Response 200
                ''<html><body>{"data":[{"channel":{"user":{"id":"1","username":"a"}}}]}</body></html>'')
             fresh_world))) =
     [\<lparr>user_id = JStr ''1'', username = JStr ''a'', bio = JNull,
       social = \<lparr>instagram = JNull, twitter = JNull, youtube = JNull,
                 discord = JNull, tiktok = JNull, facebook = JNull\<rparr>,
       profilepic = JNull\<rparr>] \<and>
   user_records (emitted
     (snd (main sample_library
             (\<lambda>n. Response 200
                ''<html><body>{"data":[{"channel":{"user":{"id":"1","username":"a"}}}]}</body></html>'')
             fresh_world))
     (snd (main sample_library
          (\<lambda>n. if n < 3 then Raises Timeout else Response 200
             ''<html><body>{"data":[{"channel":{"user":{"id":"1","username":"a"}}}]}</body></html>'')
          (snd (main sample_library
             (\<lambda>n. Response 200
                ''<html><body>{"data":[{"channel":{"user":{"id":"1","username":"a"}}}]}</body></html>'')
             fresh_world))))) =
     [\<lparr>user_id = JStr ''1'', username = JStr ''a'', bio = JNull,
       social = \<lparr>instagram = JNull, twitter = JNull, youtube = JNull,
                 discord = JNull, tiktok = JNull, facebook = JNull\<rparr>,
       profilepic = JNull\<rparr>]\<close>
proof -
  let ?body = \<open>''<html><body>{"data":[{"channel":{"user":{"id":"1","username":"a"}}}]}</body></html>''\<close>
  let ?env1 = "\<lambda>n::nat. Response 200 ?body"
  let ?env2 = "\<lambda>n::nat. if n < 3 then Raises Timeout else Response 200 ?body"
  let ?item = "JDict [(''channel'', JDict [(''user'',
                 JDict [(''id'', JStr ''1''), (''username'', JStr ''a'')])])]"
  let ?doc = "JDict [(''data'', JList [?item])]"
  let ?w0 = "issue_request (admitted_world fresh_world)"
  let ?w1 = "snd (main sample_library ?env1 fresh_world)"
  have ok: "request_attempt (Response 200 ?body) = Inr ?body"
    by (simp add: request_attempt_def raise_for_status_def)
  have f1: "get_html_content ?env1 1 fresh_world = (Inr (Some ?body), ?w0)"
    by (rule fetch_ok_world [OF fresh_world_ok]) (simp add: ok)
  then have h1: "fst (get_html_content ?env1 1 fresh_world) = Inr (Some ?body)" by simp
  from main_world [of sample_library ?env1 fresh_world] obtain evs where
    w1: "?w1 = ?w0\<lparr>log := log ?w0 @ evs\<rparr>" by (auto simp: f1)
  have adm: "admitted_world fresh_world =
      fresh_world\<lparr>num_calls := 1, admitted_at := [0]\<rparr>"
    by (simp add: admitted_world_def period_remaining_def PERIOD_def clamped_calls_def CALLS_def
        fresh_world_def)
  have ok1: "world_ok ?w1"
    by (subst w1) (simp add: world_ok_def adm, simp add: fresh_world_def PERIOD_def)
  have rm: "requests_made ?w1 = 1" by (subst w1) (simp add: fresh_world_def)
  have tr: "transient_failure (Raises Timeout)"
    by (simp add: transient_failure_def request_attempt_def)
  have h2: "fst (get_html_content ?env2 1 ?w1) = Inr (Some ?body)"
    using run_to_success [of "admitted_world ?w1" 1 0 2 ?env2 ?body]
      world_ok_accepts_default [OF ok1] ok tr
    by (simp add: get_html_content_body [OF ok1] RETRY_TIMES_def rm)
  have d: "map_of [(''data'', JList [?item])] ''data'' = Some (JList [?item])" by simp
  have wf: "well_formed_item ?item" by (simp add: well_formed_item_def)
  have m: "main sample_library ?env1 fresh_world =
      (case fst (extract_user_info ?doc ?w0) of Inr u \<Rightarrow> Inr u
       | Inl e \<Rightarrow> Inl (ValueError ''An error occurred: {e}'' (Some e)),
       snd (extract_user_info ?doc ?w0))"
    using main_extract [of ?env1 fresh_world ?body sample_library ?doc]
    by (simp add: f1 sample_parse_one_user)
  have x: "extract_user_info ?doc ?w0 = (Inr (), snd (extract_items [?item] ?w0))"
    using wf by (simp add: extract_passes_shape [OF d])
  from extract_items_events [of "[?item]"] obtain xevs where
    xevs: "user_records xevs = [spec_user_record ?item]"
      "snd (extract_items [?item] ?w0) = ?w0\<lparr>log := log ?w0 @ xevs\<rparr>"
    using wf by auto
  have "log (snd (extract_items [?item] ?w0)) = log fresh_world @ xevs"
    by (subst xevs(2)) simp
  then have "emitted fresh_world (snd (extract_items [?item] ?w0)) = xevs"
    by (rule emitted_append)
  then have recs: "user_records (emitted fresh_world ?w1) = [spec_user_record ?item]"
    using xevs(1) by (simp add: m x)
  have rec: "spec_user_record ?item =
     \<lparr>user_id = JStr ''1'', username = JStr ''a'', bio = JNull,
       social = \<lparr>instagram = JNull, twitter = JNull, youtube = JNull,
                 discord = JNull, tiktok = JNull, facebook = JNull\<rparr>,
       profilepic = JNull\<rparr>"
    by (simp add: spec_user_record_def optional_field_def)
  have res: "fst (main sample_library ?env1 fresh_world) = Inr ()" by (simp add: m x)
  note t = pipeline_outcome_depends_on_body_only [OF h1 h2, of sample_library]
  from t [THEN conjunct1] t [THEN conjunct2, THEN conjunct2, THEN conjunct1] res recs rec
  show ?thesis by simp
qed

text \<open>
  Claim C10. Whenever the fetch returns a non-empty body that the parser decodes, without
  error and without logging anything, to a falsy document (such as \<^verbatim>\<open>null\<close>, \<^verbatim>\<open>0\<close>, \<^verbatim>\<open>false\<close>,
  the empty string or the empty object), \<^verbatim>\<open>main\<close> fails with the error
  "Failed to parse HTML content to JSON." as context.
\<close>

theorem falsy_document_is_reported_as_failed_parse:
  assumes "fst (get_html_content env 1 w) = Inr (Some body)" and "body \<noteq> []"
    and "fst (parse_html_to_json lib body (snd (get_html_content env 1 w))) = Inr doc"
    and "\<not> truthy doc"
  shows "fst (main lib env w) =
           Inl (ValueError ''An error occurred: {e}''
                 (Some (ValueError ''Failed to parse HTML content to JSON.'' None))) \<and>
         log (snd (main lib env w)) = log (snd (get_html_content env 1 w)) \<and>
         \<not> truthy JNull \<and> \<not> truthy (JInt 0) \<and> \<not> truthy (JBool False) \<and>
         \<not> truthy (JStr []) \<and> \<not> truthy (JDict [])"
proof -
  have "snd (parse_html_to_json lib body (snd (get_html_content env 1 w))) =
        snd (get_html_content env 1 w)"
    using assms(3) by (auto simp: parse_html_to_json_def split: sum.splits option.splits if_splits)
  then show ?thesis using main_parse_falsy [OF assms] by simp
qed

theorem falsy_document_is_reported_as_failed_parse_witness:
  \<open>fst (parse_html_to_json sample_library ''<html><body>null</body></html>'' fresh_world) = Inr JNull \<and>
   fst (main sample_library (\<lambda>n. Response 200 ''<html><body>null</body></html>'') fresh_world) =
     Inl (ValueError ''An error occurred: {e}''
           (Some (ValueError ''Failed to parse HTML content to JSON.'' None)))\<close>
proof -
  let ?body = "''<html><body>null</body></html>''"
  let ?env = "\<lambda>n::nat. Response 200 ?body"
  have ok: "request_attempt (Response 200 ?body) = Inr ?body"
    by (simp add: request_attempt_def raise_for_status_def)
  have "get_html_content ?env 1 fresh_world =
          (Inr (Some ?body), issue_request (admitted_world fresh_world))"
    by (rule fetch_ok_world [OF fresh_world_ok]) (simp add: ok)
  then have h1: "fst (get_html_content ?env 1 fresh_world) = Inr (Some ?body)" by simp
  have h2: "?body \<noteq> []" by simp
  have h3: "fst (parse_html_to_json sample_library ?body (snd (get_html_content ?env 1 fresh_world))) =
              Inr JNull"
    by (simp add: sample_parse_null)
  have h4: "\<not> truthy JNull" by simp
  from falsy_document_is_reported_as_failed_parse [OF h1 h2 h3 h4]
  show ?thesis by (simp add: sample_parse_null)
qed

section \<open>The limiter over a sequence of calls\<close>

text \<open>The body touches nothing of the limiter, and the clock does not go back.\<close>

lemma attempt_loop_frame:
  "admitted_at (snd (attempt_loop env delay a w)) = admitted_at w \<and>
   last_reset (snd (attempt_loop env delay a w)) = last_reset w \<and>
   num_calls (snd (attempt_loop env delay a w)) = num_calls w \<and>
   sleep_limit (snd (attempt_loop env delay a w)) = sleep_limit w \<and>
   request_seconds (snd (attempt_loop env delay a w)) = request_seconds w \<and>
   ((\<forall>n. 0 \<le> request_seconds w n) \<longrightarrow> clock w \<le> clock (snd (attempt_loop env delay a w)))"
proof (induction "RETRY_TIMES - a" arbitrary: a w)
  case 0
  then show ?case by (simp add: loop_exit)
next
  case (Suc n)
  then have a: "a < RETRY_TIMES" by simp
  show ?case
  proof (cases "request_attempt (env (requests_made w))")
    case (Inr content)
    with a show ?thesis by (simp add: loop_success)
  next
    case (Inl e)
    show ?thesis
    proof (cases "is_HTTPError e \<or> \<not> is_RequestException e")
      case True
      from loop_terminal [of a env w e delay] a Inl True show ?thesis by simp
    next
      case False
      then have e: "is_RequestException e" "\<not> is_HTTPError e" by auto
      show ?thesis
      proof (cases "a < RETRY_TIMES - 1")
        case False
        with a have "a = RETRY_TIMES - 1" by simp
        then show ?thesis using loop_exhausted [of a env w e delay] Inl e by simp
      next
        case True
        show ?thesis
        proof (cases "sleep_accepts w delay")
          case rejected: False
          from loop_sleep_rejected [of a w delay env e] True rejected Inl e
          show ?thesis by auto
        next
          case accepted: True
          let ?w = "after_failed_attempt (Suc a) delay e w"
          have n: "n = RETRY_TIMES - Suc a" using Suc.hyps(2) by simp
          note ih = Suc.hyps(1) [OF n, of ?w]
          have step: "attempt_loop env delay a w = attempt_loop env delay (Suc a) ?w"
            using loop_retry [of a w delay env e] True accepted Inl e by blast
          have d: "0 \<le> delay" using accepted by (simp add: sleep_accepts_def)
          have "clock w \<le> clock (snd (attempt_loop env delay (Suc a) ?w))"
            if nn: "\<forall>n. 0 \<le> request_seconds w n"
          proof -
            from nn have "clock ?w \<le> clock (snd (attempt_loop env delay (Suc a) ?w))"
              using ih by simp
            moreover have "clock w \<le> clock ?w"
              using d nn [THEN spec, of "requests_made w"] by simp
            ultimately show ?thesis by (rule order_trans [rotated])
          qed
          then show ?thesis using ih by (simp add: step)
        qed
      qed
    qed
  qed
qed


lemma world_ok_later:
  "world_ok w \<Longrightarrow> last_reset w' = last_reset w \<Longrightarrow> sleep_limit w' = sleep_limit w \<Longrightarrow>
   clock w \<le> clock w' \<Longrightarrow> world_ok w'"
  by (simp add: world_ok_def)

lemma admitted_world_ok: "world_ok w \<Longrightarrow> world_ok (admitted_world w)"
  by (simp add: world_ok_def admitted_world_def)




text \<open>
  A run stays among the worlds a run can be in: from the world in which the module is
  loaded, through any number of calls and runs of \<^verbatim>\<open>main\<close>, as long as no request takes a
  negative time.
\<close>

lemma get_html_content_world_ok:
  assumes ok: "world_ok w" and nn: "\<forall>n. 0 \<le> request_seconds w n"
  shows "world_ok (snd (get_html_content env delay w)) \<and>
         request_seconds (snd (get_html_content env delay w)) = request_seconds w"
proof -
  let ?a = "admitted_world w"
  note fr = attempt_loop_frame [of env delay 0 ?a]
  from nn have "clock ?a \<le> clock (snd (attempt_loop env delay 0 ?a))"
    using fr by simp
  then have "world_ok (snd (attempt_loop env delay 0 ?a))"
    using admitted_world_ok [OF ok] fr by (auto intro: world_ok_later)
  then show ?thesis using fr by (simp add: get_html_content_body [OF ok])
qed

lemma main_world_ok:
  assumes ok: "world_ok w" and nn: "\<forall>n. 0 \<le> request_seconds w n"
  shows "world_ok (snd (main lib env w))"
proof -
  from main_world [of lib env w] obtain evs where
    "snd (main lib env w) =
       (snd (get_html_content env 1 w))\<lparr>log := log (snd (get_html_content env 1 w)) @ evs\<rparr>"
    by blast
  then have "world_ok (snd (main lib env w)) = world_ok (snd (get_html_content env 1 w))"
    by (simp add: world_ok_def)
  then show ?thesis using get_html_content_world_ok [OF ok nn, of env 1] by simp
qed









end
